theory Spec2Isabelle
  imports Complex_Main
begin

section \<open>Modelling conventions\<close>

text \<open>
  The development embeds the price and candle reconciliation code of the dashboard:
  \<^item> \<^verbatim>\<open>lib/history.ts\<close>: \<^verbatim>\<open>getCandles\<close>;
  \<^item> \<^verbatim>\<open>lib/token/merge.ts\<close>: \<^verbatim>\<open>mergeHistories\<close>;
  \<^item> \<^verbatim>\<open>hooks/useUnifiedPrices.ts\<close>: the aggregation done by \<^verbatim>\<open>useUnifiedPrices\<close>;
  \<^item> \<^verbatim>\<open>lib/token/mock.ts\<close>: \<^verbatim>\<open>genMock\<close>;
  \<^item> \<^verbatim>\<open>normalizeSymbol\<close> and its table \<^verbatim>\<open>MAP\<close>.

  A JavaScript number is modelled by the rational it denotes (every finite binary64
  value is a rational); \<^verbatim>\<open>NaN\<close> and the infinities are not modelled. Where the source
  does arithmetic on prices (only in \<^verbatim>\<open>genMock\<close>) every operation is followed by the
  binary64 rounding \<open>dbl\<close> defined below. Timestamps and counters are integers.
  Strings are lists of ASCII characters.
\<close>

section \<open>The history facade: \<^verbatim>\<open>getCandles\<close>\<close>

text \<open>
  Awaiting a promise either yields a value or throws. The two adapters do network I/O,
  so they are parameters of the model: functions from the call's arguments to the
  outcome of awaiting them. An adapter resolves to an array or to \<^verbatim>\<open>null\<close>.
\<close>

datatype 'a settled = Fulfilled 'a | Rejected

datatype adapter = Binance | CoinGecko

type_synonym 'c fetcher = "string \<Rightarrow> string \<Rightarrow> int \<Rightarrow> 'c list option settled"

text \<open>\<^verbatim>\<open>p.catch(() => null)\<close>: a rejection becomes \<^verbatim>\<open>null\<close>.\<close>

definition catch_null :: "'a option settled \<Rightarrow> 'a option" where
  "catch_null p = (case p of Fulfilled v \<Rightarrow> v | Rejected \<Rightarrow> None)"

text \<open>
  The result pairs the adapters that were called, in call order, with the outcome of
  awaiting \<^verbatim>\<open>getCandles\<close> itself. \<^verbatim>\<open>bin && bin.length\<close> is truthy for a
  non-empty array only; \<^verbatim>\<open>cg || []\<close> replaces \<^verbatim>\<open>null\<close> only (an empty array is
  truthy).
\<close>

definition getCandles ::
  "'c fetcher \<Rightarrow> 'c fetcher \<Rightarrow> string \<Rightarrow> string \<Rightarrow> int \<Rightarrow> adapter list \<times> 'c list settled" where
  "getCandles fetchCandlesBinance fetchCandlesCoingecko symbol interval days =
     (let bin = catch_null (fetchCandlesBinance symbol interval days) in
      case bin of
        Some (b # bs) \<Rightarrow> ([Binance], Fulfilled (b # bs))
      | _ \<Rightarrow>
        (let cg = catch_null (fetchCandlesCoingecko symbol interval days) in
         ([Binance, CoinGecko], Fulfilled (case cg of Some c \<Rightarrow> c | None \<Rightarrow> []))))"

text \<open>An adapter fails when awaiting it throws or yields \<^verbatim>\<open>null\<close>.\<close>

definition failed :: "'a option settled \<Rightarrow> bool" where
  "failed p = (catch_null p = None)"

section \<open>The history merger: \<^verbatim>\<open>mergeHistories\<close>\<close>

datatype js_error = TypeError

text \<open>The type \<^verbatim>\<open>OHLC\<close> of \<^verbatim>\<open>types/market.ts\<close>; \<^verbatim>\<open>volume\<close> is optional.\<close>

record OHLC =
  time :: int
  "open" :: rat
  high :: rat
  low :: rat
  close :: rat
  volume :: "rat option"

type_synonym History = "OHLC list"

text \<open>
  \<^verbatim>\<open>buckets\<close> is a JavaScript \<^verbatim>\<open>Map\<close>, which iterates in insertion order of its
  keys: an association list. One step of the inner loop creates the bucket of
  \<^verbatim>\<open>c.time\<close> at the end when it is missing and pushes \<^verbatim>\<open>c\<close> on it.
\<close>

fun bucket_push :: "(int \<times> OHLC list) list \<Rightarrow> OHLC \<Rightarrow> (int \<times> OHLC list) list" where
  "bucket_push [] c = [(time c, [c])]"
| "bucket_push ((ts, arr) # bs) c =
     (if ts = time c then (ts, arr @ [c]) # bs else (ts, arr) # bucket_push bs c)"

definition buckets_of :: "History list \<Rightarrow> (int \<times> OHLC list) list" where
  "buckets_of histories = foldl bucket_push [] (concat histories)"

text \<open>
  The body of the second loop. \<^verbatim>\<open>Array.prototype.sort\<close> is stable and the comparators
  subtract two numbers, so both sorts are the stable sort by \<open>\<le>\<close>. Reading
  \<^verbatim>\<open>arr[0].open\<close> of an empty array throws a \<^verbatim>\<open>TypeError\<close>. \<^verbatim>\<open>Math.max\<close> and
  \<^verbatim>\<open>Math.min\<close> fold over the spread arguments. The local \<^verbatim>\<open>close\<close>
  (\<^verbatim>\<open>arr[arr.length - 1].close\<close>) is never used. The emitted object has exactly the
  five fields \<^verbatim>\<open>time, open, high, low, close\<close>: no \<^verbatim>\<open>volume\<close>.
\<close>

definition merge_bucket :: "int \<times> OHLC list \<Rightarrow> js_error + OHLC" where
  "merge_bucket b =
     (case b of (ts, arr0) \<Rightarrow>
        (case sort_key time arr0 of
           [] \<Rightarrow> Inl TypeError
         | c0 # rest \<Rightarrow>
             (let arr = c0 # rest;
                  closes = sort (map close arr);
                  medianClose = closes ! (length closes div 2)
              in Inr \<lparr>time = ts, open = open c0,
                      high = fold max (map high rest) (high c0),
                      low = fold min (map low rest) (low c0),
                      close = medianClose, volume = None\<rparr>)))"

text \<open>A loop whose body may throw stops at the first exception.\<close>

fun collect :: "('e + 'a) list \<Rightarrow> 'e + 'a list" where
  "collect [] = Inr []"
| "collect (Inl e # rs) = Inl e"
| "collect (Inr x # rs) = (case collect rs of Inl e \<Rightarrow> Inl e | Inr xs \<Rightarrow> Inr (x # xs))"

definition mergeHistories :: "History list \<Rightarrow> js_error + History" where
  "mergeHistories histories =
     (case collect (map merge_bucket (buckets_of histories)) of
        Inl e \<Rightarrow> Inl e
      | Inr merged \<Rightarrow> Inr (sort_key time merged))"

text \<open>What the merger does to a candle that is alone in its bucket.\<close>

definition drop_volume :: "OHLC \<Rightarrow> OHLC" where
  "drop_volume c = c\<lparr>volume := None\<rparr>"

text \<open>The candles of the input that share the timestamp \<open>ts\<close>, in input order.\<close>

definition bucket :: "History list \<Rightarrow> int \<Rightarrow> OHLC list" where
  "bucket histories ts = filter (\<lambda>c. time c = ts) (concat histories)"

text \<open>The element the source takes as median: index \<open>\<lfloor>n / 2\<rfloor>\<close> of the ascending sort.\<close>

definition median_of :: "rat list \<Rightarrow> rat" where
  "median_of xs = sort xs ! (length xs div 2)"

text \<open>
  The median as the specification words it: the lower of the two middle elements of
  the ascending sort when the length is even.
\<close>

definition lower_median :: "rat list \<Rightarrow> rat" where
  "lower_median xs = sort xs ! ((length xs - 1) div 2)"

text \<open>The candle that the merger emits for the timestamp \<open>ts\<close>, stated from the bucket.\<close>

definition emit :: "History list \<Rightarrow> int \<Rightarrow> OHLC" where
  "emit hs ts =
     \<lparr>time = ts, open = open (hd (bucket hs ts)), high = Max (high ` set (bucket hs ts)),
      low = Min (low ` set (bucket hs ts)), close = median_of (map close (bucket hs ts)),
      volume = None\<rparr>"

subsection \<open>Concrete histories\<close>

text \<open>Two sources that each report one candle for the same timestamp.\<close>

definition two_sources :: "History list" where
  "two_sources =
     [[\<lparr>time = 1700000000, open = 10, high = 12, low = 9, close = 11, volume = None\<rparr>],
      [\<lparr>time = 1700000000, open = 21 / 2, high = 23 / 2, low = 19 / 2, close = 21 / 2, volume = None\<rparr>]]"

text \<open>A history with volumes, as the Binance adapter produces it, and one without.\<close>

definition with_volume :: History where
  "with_volume =
     [\<lparr>time = 1700003600, open = 10, high = 12, low = 9, close = 11, volume = Some 5\<rparr>,
      \<lparr>time = 1700010800, open = 11, high = 13, low = 10, close = 12, volume = Some 7\<rparr>]"

definition without_volume :: History where
  "without_volume =
     [\<lparr>time = 1700000000, open = 9, high = 10, low = 8, close = 10, volume = None\<rparr>,
      \<lparr>time = 1700007200, open = 11, high = 11, low = 11, close = 11, volume = None\<rparr>]"

section \<open>Strings\<close>

text \<open>
  \<^verbatim>\<open>trim\<close> removes white space and line terminators from both ends; in ASCII these
  are the characters 9 to 13 and 32. The case conversions map the 26 letters. The
  definitions of this section are the JavaScript functions on ASCII strings, the
  strings for which \<open>ascii\<close> holds; what the functions do to other code units is the
  subject of the last section of the definitions.
\<close>

definition ascii :: "string \<Rightarrow> bool" where
  "ascii s = list_all (\<lambda>c. of_char c < (128 :: nat)) s"

definition is_space :: "char \<Rightarrow> bool" where
  "is_space c = (let n = (of_char c :: nat) in (9 \<le> n \<and> n \<le> 13) \<or> n = 32)"

definition is_upper :: "char \<Rightarrow> bool" where
  "is_upper c = (let n = (of_char c :: nat) in 65 \<le> n \<and> n \<le> 90)"

definition is_lower :: "char \<Rightarrow> bool" where
  "is_lower c = (let n = (of_char c :: nat) in 97 \<le> n \<and> n \<le> 122)"

definition is_digit :: "char \<Rightarrow> bool" where
  "is_digit c = (let n = (of_char c :: nat) in 48 \<le> n \<and> n \<le> 57)"

definition upper_char :: "char \<Rightarrow> char" where
  "upper_char c = (if is_lower c then char_of (of_char c - (32 :: nat)) else c)"

definition lower_char :: "char \<Rightarrow> char" where
  "lower_char c = (if is_upper c then char_of (of_char c + (32 :: nat)) else c)"

definition toUpperCase :: "string \<Rightarrow> string" where
  "toUpperCase s = map upper_char s"

definition toLowerCase :: "string \<Rightarrow> string" where
  "toLowerCase s = map lower_char s"

definition trim :: "string \<Rightarrow> string" where
  "trim s = rev (dropWhile is_space (rev (dropWhile is_space s)))"

section \<open>The unified price aggregator: \<^verbatim>\<open>useUnifiedPrices\<close>\<close>

record TokenPrice =
  symbol :: string
  priceUSD :: rat

record PoolInfo =
  pair :: string
  tick :: int

record Snapshot =
  tokens :: "TokenPrice list option"
  pools :: "PoolInfo list option"
  blockNumber :: "int option"
  secondsAgo :: "int option"
  error :: "string option"

datatype proto = uni | sushi | quick | cake

record Acc =
  symbol :: string
  vals :: "rat list"
  byProtocol :: "proto \<Rightarrow> rat option"

record MarketRow =
  symbol :: string
  price :: "rat option"
  byProtocol :: "proto \<Rightarrow> rat option"

text \<open>
  \<^verbatim>\<open>bySymbol\<close> is a plain object used as a dictionary: an association list in
  insertion order. Its keys are upper-cased, and every property name of
  \<^verbatim>\<open>Object.prototype\<close> contains a lower-case letter, so \<^verbatim>\<open>bySymbol[sym]\<close> only
  ever finds own properties. One step of the loop in \<^verbatim>\<open>add\<close>:
\<close>

fun upsert :: "proto \<Rightarrow> string \<Rightarrow> rat \<Rightarrow> (string \<times> Acc) list \<Rightarrow> (string \<times> Acc) list" where
  "upsert p sy px [] =
     [(sy, \<lparr>Acc.symbol = sy, vals = [px], Acc.byProtocol = (\<lambda>q. None)(p := Some px)\<rparr>)]"
| "upsert p sy px ((k, v) # kvs) =
     (if k = sy
      then (k, v\<lparr>vals := vals v @ [px], Acc.byProtocol := (Acc.byProtocol v)(p := Some px)\<rparr>) # kvs
      else (k, v) # upsert p sy px kvs)"

text \<open>\<^verbatim>\<open>(t.symbol || '').toUpperCase().trim()\<close>\<close>

definition norm_symbol :: "TokenPrice \<Rightarrow> string" where
  "norm_symbol t = trim (toUpperCase (TokenPrice.symbol t))"

definition add_token :: "proto \<Rightarrow> (string \<times> Acc) list \<Rightarrow> TokenPrice \<Rightarrow> (string \<times> Acc) list" where
  "add_token p bySymbol t =
     (let sy = norm_symbol t in
      if sy = [] then bySymbol else upsert p sy (priceUSD t) bySymbol)"

text \<open>\<^verbatim>\<open>add\<close>: nothing happens when the snapshot or its \<^verbatim>\<open>tokens\<close> is missing.\<close>

definition add :: "proto \<Rightarrow> Snapshot option \<Rightarrow> (string \<times> Acc) list \<Rightarrow> (string \<times> Acc) list" where
  "add p snap bySymbol =
     (case snap of
        None \<Rightarrow> bySymbol
      | Some sn \<Rightarrow> (case tokens sn of None \<Rightarrow> bySymbol | Some ts \<Rightarrow> foldl (add_token p) bySymbol ts))"

text \<open>
  \<^verbatim>\<open>Object.values\<close> lists the properties whose name is an array index (a canonical
  decimal numeral below \<open>2\<^sup>3\<^sup>2 - 1\<close>) first, in ascending numeric order, and then the
  other properties in insertion order.
\<close>

definition digits_value :: "string \<Rightarrow> int" where
  "digits_value s = foldl (\<lambda>n c. 10 * n + (of_char c - 48)) 0 s"

definition is_array_index :: "string \<Rightarrow> bool" where
  "is_array_index s =
     (s \<noteq> [] \<and> list_all is_digit s \<and> (hd s = CHR ''0'' \<longrightarrow> length s = 1)
      \<and> digits_value s < 2 ^ 32 - 1)"

definition own_entries :: "(string \<times> 'a) list \<Rightarrow> (string \<times> 'a) list" where
  "own_entries kvs =
     sort_key (\<lambda>kv. digits_value (fst kv)) (filter (\<lambda>kv. is_array_index (fst kv)) kvs)
     @ filter (\<lambda>kv. \<not> is_array_index (fst kv)) kvs"

definition object_values :: "(string \<times> 'a) list \<Rightarrow> 'a list" where
  "object_values kvs = map snd (own_entries kvs)"

definition allowed :: "string list" where
  "allowed = [''BTC'', ''WBTC'', ''TBTC'', ''ETH'', ''WETH'', ''PAXG'', ''RETH'', ''STETH'', ''WSTETH'']"

definition tooLarge :: "string \<Rightarrow> rat \<Rightarrow> bool" where
  "tooLarge sy px = (px > 1000000 \<and> sy \<notin> set allowed)"

definition row_of :: "Acc \<Rightarrow> MarketRow" where
  "row_of v =
     (let sorted = sort (vals v);
          median = (if sorted \<noteq> [] then Some (sorted ! (length sorted div 2)) else None);
          finalPrice = (case median of
                          Some m \<Rightarrow> if \<not> tooLarge (Acc.symbol v) m then Some m else None
                        | None \<Rightarrow> None)
      in \<lparr>symbol = Acc.symbol v, price = finalPrice, byProtocol = Acc.byProtocol v\<rparr>)"

text \<open>\<^verbatim>\<open>snap?.pools || []\<close>.\<close>

definition pools_or_empty :: "Snapshot option \<Rightarrow> PoolInfo list" where
  "pools_or_empty snap =
     (case snap of None \<Rightarrow> [] | Some sn \<Rightarrow> (case pools sn of None \<Rightarrow> [] | Some ps \<Rightarrow> ps))"

text \<open>
  The hook's computation from the four \<^verbatim>\<open>data\<close> values that \<^verbatim>\<open>useSWR\<close> hands it:
  \<^verbatim>\<open>undefined\<close> (here \<open>None\<close>) for a protocol that is disabled or whose fetch failed.
  \<open>snaps p\<close> is the value for protocol \<open>p\<close>.
\<close>

definition bySymbol_of :: "(proto \<Rightarrow> Snapshot option) \<Rightarrow> (string \<times> Acc) list" where
  "bySymbol_of snaps =
     add cake (snaps cake) (add quick (snaps quick) (add sushi (snaps sushi) (add uni (snaps uni) [])))"

definition rows :: "(proto \<Rightarrow> Snapshot option) \<Rightarrow> MarketRow list" where
  "rows snaps = map row_of (object_values (bySymbol_of snaps))"

definition pairs :: "(proto \<Rightarrow> Snapshot option) \<Rightarrow> PoolInfo list" where
  "pairs snaps =
     pools_or_empty (snaps uni) @ pools_or_empty (snaps sushi)
     @ pools_or_empty (snaps quick) @ pools_or_empty (snaps cake)"

subsection \<open>Reference notions for the aggregator\<close>

text \<open>The token list of a snapshot, empty when the snapshot or the list is missing.\<close>

definition tokens_or_empty :: "Snapshot option \<Rightarrow> TokenPrice list" where
  "tokens_or_empty snap =
     (case snap of None \<Rightarrow> [] | Some sn \<Rightarrow> (case tokens sn of None \<Rightarrow> [] | Some ts \<Rightarrow> ts))"

text \<open>The symbols a snapshot contributes: upper-cased, trimmed, non-empty.\<close>

definition observed :: "Snapshot option \<Rightarrow> string set" where
  "observed snap = {k. k \<noteq> [] \<and> k \<in> norm_symbol ` set (tokens_or_empty snap)}"

text \<open>The prices a snapshot quotes for a symbol, in the order of its token list.\<close>

definition quotes :: "string \<Rightarrow> Snapshot option \<Rightarrow> rat list" where
  "quotes sy snap = map priceUSD (filter (\<lambda>t. norm_symbol t = sy) (tokens_or_empty snap))"

text \<open>All prices quoted for a symbol, in the order in which \<^verbatim>\<open>add\<close> meets them.\<close>

definition all_quotes :: "(proto \<Rightarrow> Snapshot option) \<Rightarrow> string \<Rightarrow> rat list" where
  "all_quotes snaps sy =
     quotes sy (snaps uni) @ quotes sy (snaps sushi) @ quotes sy (snaps quick) @ quotes sy (snaps cake)"

definition last_quote :: "rat list \<Rightarrow> rat option" where
  "last_quote qs = (if qs = [] then None else Some (last qs))"

text \<open>The tokens in the order in which the four calls of \<^verbatim>\<open>add\<close> process them.\<close>

definition entries :: "(proto \<Rightarrow> Snapshot option) \<Rightarrow> (proto \<times> TokenPrice) list" where
  "entries snaps = concat (map (\<lambda>p. map (Pair p) (tokens_or_empty (snaps p))) [uni, sushi, quick, cake])"

definition process :: "(string \<times> Acc) list \<Rightarrow> proto \<times> TokenPrice \<Rightarrow> (string \<times> Acc) list" where
  "process bs e = add_token (fst e) bs (snd e)"

definition keys_of :: "(proto \<times> TokenPrice) list \<Rightarrow> string set" where
  "keys_of es = {k. k \<noteq> [] \<and> k \<in> (\<lambda>e. norm_symbol (snd e)) ` set es}"

text \<open>The accumulator that the tokens \<open>es\<close> leave under the key \<open>k\<close>.\<close>

definition acc_of :: "(proto \<times> TokenPrice) list \<Rightarrow> string \<Rightarrow> Acc" where
  "acc_of es k =
     \<lparr>Acc.symbol = k,
      vals = map (\<lambda>e. priceUSD (snd e)) (filter (\<lambda>e. norm_symbol (snd e) = k) es),
      Acc.byProtocol = (\<lambda>q. last_quote (map (\<lambda>e. priceUSD (snd e))
                                (filter (\<lambda>e. norm_symbol (snd e) = k \<and> fst e = q) es)))\<rparr>"

text \<open>The row of a symbol, stated from the quotes.\<close>

definition row_for :: "(proto \<Rightarrow> Snapshot option) \<Rightarrow> string \<Rightarrow> MarketRow" where
  "row_for snaps k =
     \<lparr>MarketRow.symbol = k,
      price = (if tooLarge k (median_of (all_quotes snaps k)) then None
               else Some (median_of (all_quotes snaps k))),
      MarketRow.byProtocol = (\<lambda>q. last_quote (quotes k (snaps q)))\<rparr>"

text \<open>A snapshot without tokens and pools.\<close>

definition empty_snapshot :: Snapshot where
  "empty_snapshot = \<lparr>tokens = Some [], pools = Some [], blockNumber = None, secondsAgo = None, error = None\<rparr>"

subsection \<open>A concrete poll\<close>

text \<open>
  Uniswap and Sushiswap answered, QuickSwap and PancakeSwap did not. Both quote
  \<^verbatim>\<open>BTC\<close> above a million dollars and an unknown token \<^verbatim>\<open>XYZ\<close> at two millions.
\<close>

definition poll :: "proto \<Rightarrow> Snapshot option" where
  "poll =
     (\<lambda>p. None)
       (uni := Some (empty_snapshot
          \<lparr>tokens := Some [\<lparr>TokenPrice.symbol = ''BTC'', priceUSD = 2000000\<rparr>,
                           \<lparr>TokenPrice.symbol = ''XYZ'', priceUSD = 2000000\<rparr>],
           pools := Some [\<lparr>pair = ''WBTC/WETH'', tick = 257000\<rparr>]\<rparr>),
        sushi := Some (empty_snapshot
          \<lparr>tokens := Some [\<lparr>TokenPrice.symbol = ''btc '', priceUSD = 2100000\<rparr>,
                           \<lparr>TokenPrice.symbol = ''XYZ'', priceUSD = 2000000\<rparr>]\<rparr>))"

section \<open>Binary64 arithmetic\<close>

text \<open>
  \<open>dbl x\<close> is the binary64 value nearest to the rational \<open>x\<close>, ties to even: the
  result of every arithmetic operation and of reading a decimal literal. A finite
  binary64 value is a multiple of \<open>2\<^sup>e\<^sup>-\<^sup>5\<^sup>2\<close> where \<open>2\<^sup>e \<le> \<bar>x\<bar> < 2\<^sup>e\<^sup>+\<^sup>1\<close>, and of
  \<open>2\<^sup>-\<^sup>1\<^sup>0\<^sup>7\<^sup>4\<close> in the subnormal range. Overflow to infinity is not modelled; in
  \<^verbatim>\<open>genMock\<close> every intermediate value is far below \<open>2\<^sup>1\<^sup>0\<^sup>2\<^sup>4\<close>.
\<close>

text \<open>The number of binary digits of a positive integer.\<close>

function bitlen :: "int \<Rightarrow> int" where
  "bitlen n = (if n \<le> 0 then 0 else 1 + bitlen (n div 2))"
  by pat_completeness auto
termination
  by (relation "measure nat") auto

definition pow2 :: "int \<Rightarrow> rat" where
  "pow2 e = (if 0 \<le> e then 2 ^ nat e else 1 / 2 ^ nat (- e))"

text \<open>For \<open>x > 0\<close>, \<open>ilog2 x\<close> is the \<open>e\<close> with \<open>2\<^sup>e \<le> x < 2\<^sup>e\<^sup>+\<^sup>1\<close>.\<close>

definition ilog2 :: "rat \<Rightarrow> int" where
  "ilog2 x =
     (if 1 \<le> x then bitlen \<lfloor>x\<rfloor> - 1
      else (let b = bitlen \<lfloor>1 / x\<rfloor> in if x = pow2 (1 - b) then 1 - b else - b))"

definition round_half_even :: "rat \<Rightarrow> int" where
  "round_half_even m =
     (let n = \<lfloor>m\<rfloor>; f = m - of_int n in
      if f < 1 / 2 then n else if 1 / 2 < f then n + 1 else if even n then n else n + 1)"

definition dbl :: "rat \<Rightarrow> rat" where
  "dbl x =
     (if x = 0 then 0
      else (let q = pow2 (max (ilog2 \<bar>x\<bar>) (- 1022) - 52) in of_int (round_half_even (x / q)) * q))"

text \<open>The remainder operator \<^verbatim>\<open>%\<close> on numbers truncates the quotient and is exact.\<close>

definition js_rem :: "rat \<Rightarrow> rat \<Rightarrow> rat" where
  "js_rem x m = x - m * of_int (if 0 \<le> x / m then \<lfloor>x / m\<rfloor> else \<lceil>x / m\<rceil>)"

text \<open>
  \<^verbatim>\<open>+x.toFixed(4)\<close>: \<^verbatim>\<open>toFixed\<close> prints the decimal with four fraction digits nearest
  to the exact value of \<open>x\<close>, the larger in magnitude on a tie (from \<open>10\<^sup>2\<^sup>1\<close> on it prints
  \<open>x\<close> itself), and the unary plus reads the decimal back.
\<close>

definition toFixed4 :: "rat \<Rightarrow> rat" where
  "toFixed4 x =
     (if 10 ^ 21 \<le> \<bar>x\<bar> then x
      else dbl (sgn x * of_int \<lfloor>\<bar>x\<bar> * 10 ^ 4 + 1 / 2\<rfloor> / 10 ^ 4))"

section \<open>The mock generator: \<^verbatim>\<open>genMock\<close>\<close>

definition step_of :: "string \<Rightarrow> int" where
  "step_of interval =
     (if interval = ''1m'' then 60
      else if interval = ''5m'' then 300
      else if interval = ''15m'' then 900
      else if interval = ''4h'' then 14400
      else if interval = ''1d'' then 86400 else 3600)"

text \<open>
  \<^verbatim>\<open>Array.from(symbol).reduce((a, c) => a + c.charCodeAt(0), 100)\<close>; the sum of small
  integers is exact.
\<close>

definition seed_of :: "string \<Rightarrow> rat" where
  "seed_of s = foldl (\<lambda>a c. a + of_nat (of_char c)) 100 s"

text \<open>
  One call of \<^verbatim>\<open>rand\<close> assigns \<^verbatim>\<open>seed\<close> and returns \<^verbatim>\<open>seed / 2 ** 32\<close>: the
  function \<open>next_seed\<close> is the assignment and \<open>rand_of\<close> the value returned for the new
  seed.
\<close>

definition next_seed :: "rat \<Rightarrow> rat" where
  "next_seed seed = js_rem (dbl (dbl (seed * 1664525) + 1013904223)) (2 ^ 32)"

definition rand_of :: "rat \<Rightarrow> rat" where
  "rand_of seed = dbl (seed / 2 ^ 32)"

text \<open>
  The loop \<^verbatim>\<open>for (let i = n; i >= 1; i--)\<close>, with the loop counter as the recursion
  argument: \<open>mock_loop i now step seed price\<close> is the list of candles pushed from the
  iteration with counter \<open>i\<close> on, given the values of \<^verbatim>\<open>seed\<close> and \<^verbatim>\<open>price\<close> (here \<open>prc\<close>)
  when that iteration starts.
\<close>

fun mock_loop :: "nat \<Rightarrow> int \<Rightarrow> int \<Rightarrow> rat \<Rightarrow> rat \<Rightarrow> History" where
  "mock_loop 0 now step seed prc = []"
| "mock_loop (Suc k) now step seed prc =
     (let t = now - int (Suc k) * step;
          seed1 = next_seed seed;
          drift = dbl (dbl (rand_of seed1 - 1 / 2) * dbl (6 / 10));
          seed2 = next_seed seed1;
          vol = dbl (dbl (8 / 10) + dbl (rand_of seed2 * dbl (6 / 10)));
          opn = prc;
          h = dbl (opn + dbl (\<bar>drift\<bar> * vol));
          l = dbl (opn - dbl (\<bar>drift\<bar> * vol));
          c = dbl (opn + drift);
          prc' = max (dbl (1 / 10000)) c
      in \<lparr>time = t, open = toFixed4 opn, high = toFixed4 h, low = toFixed4 l, close = toFixed4 c,
           volume = None\<rparr>
         # mock_loop k now step seed2 prc')"

text \<open>
  \<open>now_ms\<close> is the value \<^verbatim>\<open>Date.now()\<close> returns during the call. \<^verbatim>\<open>days\<close> is an
  integer, as the specification has it. \<^verbatim>\<open>Math.floor((days * 86400) / step)\<close> is
  then the integer quotient: below 1000 the quotient of two integers is too far from
  the next integer for the rounding of the division to reach it, and from 1000 on the
  minimum is 1000 either way. A loop bound below 1 gives no iteration.
\<close>

definition genMock :: "int \<Rightarrow> string \<Rightarrow> int \<Rightarrow> string \<Rightarrow> History" where
  "genMock now_ms sy days interval =
     (let now = now_ms div 1000;
          step = step_of interval;
          n = min 1000 ((days * 86400) div step);
          seed0 = seed_of sy;
          seed1 = next_seed seed0;
          prc = dbl (100 + dbl (dbl (rand_of seed1 - 1 / 2) * 5))
      in mock_loop (nat n) now step seed1 prc)"

text \<open>The four prices of a candle, without its timestamp.\<close>

definition ohlc :: "OHLC \<Rightarrow> rat \<times> rat \<times> rat \<times> rat" where
  "ohlc c = (open c, high c, low c, close c)"

text \<open>The invariant of a candle.\<close>

definition candle_ok :: "OHLC \<Rightarrow> bool" where
  "candle_ok c = (low c \<le> open c \<and> open c \<le> high c \<and> low c \<le> close c \<and> close c \<le> high c)"

section \<open>The symbol normaliser: \<^verbatim>\<open>normalizeSymbol\<close>\<close>

definition MAP :: "(string \<times> string) list" where
  "MAP =
     [(''ethereum'', ''ETH''), (''ether'', ''ETH''), (''bitcoin'', ''BTC''), (''solana'', ''SOL''),
      (''polygon'', ''MATIC''), (''bnb'', ''BNB''), (''ripple'', ''XRP''), (''cardano'', ''ADA''),
      (''dogecoin'', ''DOGE''), (''litecoin'', ''LTC''), (''chainlink'', ''LINK''),
      (''uniswap'', ''UNI''), (''aave'', ''AAVE''), (''pancakeswap'', ''CAKE''), (''sushi'', ''SUSHI'')]"

text \<open>
  \<^verbatim>\<open>MAP\<close> is an object literal, so \<^verbatim>\<open>MAP[s]\<close> also finds what the object inherits
  from \<^verbatim>\<open>Object.prototype\<close>: functions and, for \<^verbatim>\<open>__proto__\<close>, the prototype object
  itself. None of these values has a method \<^verbatim>\<open>toUpperCase\<close>.
\<close>

definition Object_prototype :: "string list" where
  "Object_prototype =
     [''constructor'', ''__defineGetter__'', ''__defineSetter__'', ''hasOwnProperty'',
      ''__lookupGetter__'', ''__lookupSetter__'', ''isPrototypeOf'', ''propertyIsEnumerable'',
      ''toString'', ''valueOf'', ''__proto__'', ''toLocaleString'']"

datatype js_value = JString string | JObject

definition MAP_get :: "string \<Rightarrow> js_value option" where
  "MAP_get s =
     (case map_of MAP s of
        Some v \<Rightarrow> Some (JString v)
      | None \<Rightarrow> if s \<in> set Object_prototype then Some JObject else None)"

text \<open>\<^verbatim>\<open>!v\<close>: \<^verbatim>\<open>undefined\<close> and the empty string are falsy, objects are truthy.\<close>

definition falsy :: "js_value option \<Rightarrow> bool" where
  "falsy v = (case v of None \<Rightarrow> True | Some (JString t) \<Rightarrow> t = [] | Some JObject \<Rightarrow> False)"

definition is_hex :: "char \<Rightarrow> bool" where
  "is_hex c = (is_digit c \<or> c \<in> set ''abcdefABCDEF'')"

text \<open>\<^verbatim>\<open>/^0x[a-f0-9]{40}$/i\<close>\<close>

definition is_address :: "string \<Rightarrow> bool" where
  "is_address s =
     (case s of
        c0 # c1 # hs \<Rightarrow> c0 = CHR ''0'' \<and> (c1 = CHR ''x'' \<or> c1 = CHR ''X'') \<and> length hs = 40 \<and> list_all is_hex hs
      | _ \<Rightarrow> False)"

text \<open>\<^verbatim>\<open>/^[a-z]{2,8}$/i\<close>\<close>

definition is_ticker :: "string \<Rightarrow> bool" where
  "is_ticker s = (2 \<le> length s \<and> length s \<le> 8 \<and> list_all (\<lambda>c. is_lower c \<or> is_upper c) s)"

definition normalizeSymbol :: "string \<Rightarrow> js_error + string" where
  "normalizeSymbol input =
     (if input = [] then Inr []
      else
        (let s = toLowerCase (trim input) in
         if is_address s then Inr s
         else if is_ticker s \<and> falsy (MAP_get s) then Inr (toUpperCase s)
         else
           (case MAP_get s of
              None \<Rightarrow> Inr (toUpperCase s)
            | Some (JString v) \<Rightarrow> Inr (toUpperCase v)
            | Some JObject \<Rightarrow> Inl TypeError)))"

text \<open>An address in mixed case, as checksummed addresses are written.\<close>

definition mixed_case_address :: string where
  "mixed_case_address = ''0xAbCdEf0123456789AbCdEf0123456789aBcDeF01''"

section \<open>\<^verbatim>\<open>normalizeSymbol\<close> beyond ASCII\<close>

text \<open>
  A JavaScript string is a sequence of 16-bit code units, and \<^verbatim>\<open>toUpperCase\<close>,
  \<^verbatim>\<open>toLowerCase\<close> and \<^verbatim>\<open>trim\<close> follow the Unicode tables of the engine, which are
  not part of the repository. To state what \<^verbatim>\<open>normalizeSymbol\<close> does outside ASCII,
  the function is repeated here over code units, with the tables written out for the
  ASCII code units and for two more: U+00A0 (no-break space, code 160), which is white
  space for \<^verbatim>\<open>trim\<close> and has no case, and U+017F (Latin small letter long s, code
  383), which is a lower-case letter whose upper case is the ASCII letter \<^verbatim>\<open>S\<close>. For
  an input with any other code unit the result is \<open>None\<close>: not tabulated.
\<close>

type_synonym ustring = "nat list"

text \<open>The code units of an ASCII string.\<close>

definition units :: "string \<Rightarrow> ustring" where
  "units s = map of_char s"

definition tabulated :: "nat \<Rightarrow> bool" where
  "tabulated u = (u < 128 \<or> u = 160 \<or> u = 383)"

definition is_space16 :: "nat \<Rightarrow> bool" where
  "is_space16 u = ((9 \<le> u \<and> u \<le> 13) \<or> u = 32 \<or> u = 160)"

definition upper_unit :: "nat \<Rightarrow> nat" where
  "upper_unit u = (if 97 \<le> u \<and> u \<le> 122 then u - 32 else if u = 383 then 83 else u)"

definition lower_unit :: "nat \<Rightarrow> nat" where
  "lower_unit u = (if 65 \<le> u \<and> u \<le> 90 then u + 32 else u)"

definition toUpperCase16 :: "ustring \<Rightarrow> ustring" where
  "toUpperCase16 s = map upper_unit s"

definition toLowerCase16 :: "ustring \<Rightarrow> ustring" where
  "toLowerCase16 s = map lower_unit s"

definition trim16 :: "ustring \<Rightarrow> ustring" where
  "trim16 s = rev (dropWhile is_space16 (rev (dropWhile is_space16 s)))"

text \<open>
  The two patterns have the flag \<^verbatim>\<open>i\<close> but not the flag \<^verbatim>\<open>u\<close>: a code unit above
  127 is never identified with an ASCII letter, so neither U+00A0 nor U+017F matches
  \<^verbatim>\<open>[a-z]\<close> or \<^verbatim>\<open>[a-f0-9]\<close>.
\<close>

definition is_hex16 :: "nat \<Rightarrow> bool" where
  "is_hex16 u = ((48 \<le> u \<and> u \<le> 57) \<or> (97 \<le> u \<and> u \<le> 102) \<or> (65 \<le> u \<and> u \<le> 70))"

definition is_letter16 :: "nat \<Rightarrow> bool" where
  "is_letter16 u = ((97 \<le> u \<and> u \<le> 122) \<or> (65 \<le> u \<and> u \<le> 90))"

definition is_address16 :: "ustring \<Rightarrow> bool" where
  "is_address16 s =
     (case s of
        c0 # c1 # hs \<Rightarrow> c0 = 48 \<and> (c1 = 120 \<or> c1 = 88) \<and> length hs = 40 \<and> list_all is_hex16 hs
      | _ \<Rightarrow> False)"

definition is_ticker16 :: "ustring \<Rightarrow> bool" where
  "is_ticker16 s = (2 \<le> length s \<and> length s \<le> 8 \<and> list_all is_letter16 s)"

datatype js_value16 = UString ustring | UObject

definition MAP_get16 :: "ustring \<Rightarrow> js_value16 option" where
  "MAP_get16 s =
     (case map_of (map (\<lambda>kv. (units (fst kv), units (snd kv))) MAP) s of
        Some v \<Rightarrow> Some (UString v)
      | None \<Rightarrow> if s \<in> set (map units Object_prototype) then Some UObject else None)"

definition falsy16 :: "js_value16 option \<Rightarrow> bool" where
  "falsy16 v = (case v of None \<Rightarrow> True | Some (UString t) \<Rightarrow> t = [] | Some UObject \<Rightarrow> False)"

definition normalizeSymbol16 :: "ustring \<Rightarrow> (js_error + ustring) option" where
  "normalizeSymbol16 input =
     (if \<not> list_all tabulated input then None
      else Some
        (if input = [] then Inr []
         else
           (let s = toLowerCase16 (trim16 input) in
            if is_address16 s then Inr s
            else if is_ticker16 s \<and> falsy16 (MAP_get16 s) then Inr (toUpperCase16 s)
            else
              (case MAP_get16 s of
                 None \<Rightarrow> Inr (toUpperCase16 s)
               | Some (UString v) \<Rightarrow> Inr (toUpperCase16 v)
               | Some UObject \<Rightarrow> Inl TypeError))))"

text \<open>The string \<^verbatim>\<open>"\u017folana"\<close>: \<^verbatim>\<open>solana\<close> written with a long s.\<close>

definition long_s_solana :: ustring where
  "long_s_solana = 383 # units ''olana''"

section \<open>Properties of \<^verbatim>\<open>getCandles\<close>\<close>

text \<open>
  Claim C3. \<^verbatim>\<open>getCandles\<close> calls the Binance adapter first; it calls the CoinGecko
  adapter exactly when the Binance adapter throws, yields \<^verbatim>\<open>null\<close> or yields an empty
  array, and then returns what CoinGecko yields; when both adapters fail it returns the
  empty array; it never throws. In particular, when Binance throws and CoinGecko yields
  three candles, exactly these three candles are returned.
\<close>

theorem getCandles_fallback:
  "(let bo = B sy iv d; co = C sy iv d;
        r = getCandles B C sy iv d in
    hd (fst r) = Binance
    \<and> ((CoinGecko \<in> set (fst r)) = (failed bo \<or> bo = Fulfilled (Some [])))
    \<and> (\<exists>cs. snd r = Fulfilled cs)
    \<and> (\<forall>b bs. bo = Fulfilled (Some (b # bs)) \<longrightarrow> r = ([Binance], Fulfilled (b # bs)))
    \<and> (\<forall>cs. (failed bo \<or> bo = Fulfilled (Some [])) \<and> co = Fulfilled (Some cs) \<longrightarrow> snd r = Fulfilled cs)
    \<and> ((failed bo \<or> bo = Fulfilled (Some [])) \<and> failed co \<longrightarrow> snd r = Fulfilled [])
    \<and> (\<forall>c1 c2 c3. bo = Rejected \<and> co = Fulfilled (Some [c1, c2, c3]) \<longrightarrow> snd r = Fulfilled [c1, c2, c3]))"
  unfolding getCandles_def failed_def catch_null_def
  by (auto simp: Let_def split: settled.splits option.splits list.splits)

theorem getCandles_fallback_witness:
  "getCandles (\<lambda>s i d. Rejected) (\<lambda>s i d. Fulfilled (Some [1, 2, 3 :: nat])) ''BTC'' ''1h'' 30
     = ([Binance, CoinGecko], Fulfilled [1, 2, 3])
   \<and> failed (Rejected :: nat list option settled)"
  using getCandles_fallback [of "\<lambda>s i d. Rejected" "''BTC''" "''1h''" 30 "\<lambda>s i d. Fulfilled (Some [1, 2, 3 :: nat])"]
  by (simp add: getCandles_def failed_def catch_null_def Let_def)

section \<open>Properties of \<^verbatim>\<open>mergeHistories\<close>\<close>

lemma map_of_bucket_push:
  "map_of (bucket_push bs c) =
     (map_of bs)(time c \<mapsto> (case map_of bs (time c) of None \<Rightarrow> [c] | Some arr \<Rightarrow> arr @ [c]))"
  by (induction bs c rule: bucket_push.induct) (auto simp: fun_eq_iff)

lemma keys_bucket_push:
  "map fst (bucket_push bs c) =
     (if time c \<in> fst ` set bs then map fst bs else map fst bs @ [time c])"
  by (induction bs c rule: bucket_push.induct) (auto simp: image_iff)

lemma distinct_bucket_push:
  "distinct (map fst bs) \<Longrightarrow> distinct (map fst (bucket_push bs c))"
  by (simp add: keys_bucket_push)

lemma bucket_push_fresh:
  "time c \<notin> fst ` set bs \<Longrightarrow> bucket_push bs c = bs @ [(time c, [c])]"
  by (induction bs c rule: bucket_push.induct) auto

lemma filter_key_absent: "k \<notin> f ` set xs \<Longrightarrow> filter (\<lambda>d. f d = k) xs = []"
  by (auto simp: filter_empty_conv)

lemma foldl_bucket_push:
  "distinct (map fst (foldl bucket_push [] cs)) \<and>
   (\<forall>ts. map_of (foldl bucket_push [] cs) ts =
     (if ts \<in> time ` set cs then Some (filter (\<lambda>c. time c = ts) cs) else None))"
proof (induction cs rule: rev_induct)
  case Nil
  show ?case by simp
next
  case (snoc c cs)
  let ?bs = "foldl bucket_push [] cs"
  have d: "distinct (map fst (bucket_push ?bs c))"
    using snoc by (simp add: distinct_bucket_push)
  have m: "map_of (bucket_push ?bs c) ts =
      (if ts \<in> time ` set (cs @ [c]) then Some (filter (\<lambda>c. time c = ts) (cs @ [c])) else None)" for ts
  proof (cases "ts = time c")
    case True
    show ?thesis
    proof (cases "time c \<in> time ` set cs")
      case True
      with \<open>ts = time c\<close> snoc show ?thesis by (simp add: map_of_bucket_push)
    next
      case False
      then have "filter (\<lambda>d. time d = time c) cs = []"
        by (rule filter_key_absent)
      with False \<open>ts = time c\<close> snoc show ?thesis by (simp add: map_of_bucket_push)
    qed
  next
    case False
    with snoc show ?thesis by (auto simp: map_of_bucket_push)
  qed
  from d m show ?case by simp
qed

lemma buckets_of_entry:
  assumes "(ts, arr) \<in> set (buckets_of hs)"
  shows "arr = bucket hs ts \<and> arr \<noteq> []"
proof -
  have "distinct (map fst (buckets_of hs))"
    using foldl_bucket_push [of "concat hs"] unfolding buckets_of_def by blast
  then have "map_of (buckets_of hs) ts = Some arr"
    using assms by (rule map_of_is_SomeI)
  moreover have "map_of (buckets_of hs) ts =
      (if ts \<in> time ` set (concat hs) then Some (bucket hs ts) else None)"
    using foldl_bucket_push [of "concat hs"] unfolding buckets_of_def bucket_def by blast
  ultimately have "ts \<in> time ` set (concat hs)" and "arr = bucket hs ts"
    by (auto split: if_splits)
  moreover from \<open>ts \<in> time ` set (concat hs)\<close> have "bucket hs ts \<noteq> []"
    unfolding bucket_def by (auto simp: filter_empty_conv)
  ultimately show ?thesis by simp
qed

lemma buckets_of_keys: "set (map fst (buckets_of hs)) = time ` set (concat hs)"
proof -
  have "dom (map_of (buckets_of hs)) = time ` set (concat hs)"
    using foldl_bucket_push [of "concat hs"] by (auto simp: buckets_of_def dom_def split: if_splits)
  then show ?thesis by (simp add: dom_map_of_conv_image_fst)
qed

lemma sort_key_const:
  "\<forall>x \<in> set xs. f x = k \<Longrightarrow> sort_key f xs = xs"
proof (induction xs)
  case Nil
  show ?case by simp
next
  case (Cons x xs)
  then show ?case by (cases xs) auto
qed


lemma fold_max_Max: "fold max xs (x :: rat) = Max (set (x # xs))"
  by (simp only: Max.set_eq_fold)

lemma fold_min_Min: "fold min xs (x :: rat) = Min (set (x # xs))"
  by (simp only: Min.set_eq_fold)

text \<open>The candle emitted for a non-empty bucket whose candles share the timestamp.\<close>

lemma merge_bucket_const:
  assumes "arr \<noteq> []" and "\<forall>c \<in> set arr. time c = ts"
  shows "merge_bucket (ts, arr) =
    Inr \<lparr>time = ts, open = open (hd arr), high = Max (high ` set arr), low = Min (low ` set arr),
         close = median_of (map close arr), volume = None\<rparr>"
proof -
  have s: "sort_key time arr = arr" using assms(2) by (rule sort_key_const)
  from assms(1) obtain c0 rest where arr: "arr = c0 # rest" by (cases arr) auto
  have "merge_bucket (ts, arr) =
      Inr \<lparr>time = ts, open = open c0, high = fold max (map high rest) (high c0),
           low = fold min (map low rest) (low c0),
           close = sort (map close arr) ! (length (sort (map close arr)) div 2), volume = None\<rparr>"
    unfolding merge_bucket_def prod.case s by (simp only: arr list.case Let_def)
  also have "fold max (map high rest) (high c0) = Max (high ` set arr)"
    unfolding arr by (simp only: fold_max_Max list.map(2) [symmetric] set_map)
  also have "fold min (map low rest) (low c0) = Min (low ` set arr)"
    unfolding arr by (simp only: fold_min_Min list.map(2) [symmetric] set_map)
  finally show ?thesis by (simp add: median_of_def arr)
qed

lemma collect_map:
  "\<forall>x \<in> set xs. f x = Inr (g x) \<Longrightarrow> collect (map f xs) = Inr (map g xs)"
  by (induction xs) auto

lemma merge_bucket_buckets_of:
  assumes "b \<in> set (buckets_of hs)"
  shows "merge_bucket b = Inr (emit hs (fst b))"
proof -
  obtain ts arr where b: "b = (ts, arr)" by (cases b)
  with assms have "arr = bucket hs ts \<and> arr \<noteq> []" by (simp add: buckets_of_entry)
  moreover have "\<forall>c \<in> set (bucket hs ts). time c = ts" by (simp add: bucket_def)
  ultimately show ?thesis
    using merge_bucket_const [of arr ts] by (auto simp: b emit_def)
qed

lemma mergeHistories_eq:
  "mergeHistories hs = Inr (sort_key time (map (\<lambda>b. emit hs (fst b)) (buckets_of hs)))"
  unfolding mergeHistories_def
  by (simp add: collect_map [of "buckets_of hs" merge_bucket "\<lambda>b. emit hs (fst b)"] merge_bucket_buckets_of)

lemma distinct_map_sort_key: "distinct (map f (sort_key g xs)) = distinct (map f xs)"
  by (simp add: distinct_map)

lemma mergeHistories_times:
  "mergeHistories hs = Inr out \<Longrightarrow>
     distinct (map time out) \<and> sorted (map time out) \<and> set (map time out) = time ` set (concat hs)"
proof -
  assume "mergeHistories hs = Inr out"
  then have out: "out = sort_key time (map (\<lambda>b. emit hs (fst b)) (buckets_of hs))"
    by (simp add: mergeHistories_eq)
  have t: "map time (map (\<lambda>b. emit hs (fst b)) (buckets_of hs)) = map fst (buckets_of hs)"
    by (simp add: emit_def)
  have d: "distinct (map fst (buckets_of hs))"
    using foldl_bucket_push [of "concat hs"] unfolding buckets_of_def by blast
  have "distinct (map time out) = distinct (map fst (buckets_of hs))"
    unfolding out t [symmetric] by (rule distinct_map_sort_key)
  moreover have "set (map time out) = set (map fst (buckets_of hs))"
    unfolding out t [symmetric] by (simp add: image_image)
  ultimately have "distinct (map time out)" "set (map time out) = set (map fst (buckets_of hs))"
    using d by simp_all
  moreover have "sorted (map time out)" unfolding out by simp
  ultimately show ?thesis using buckets_of_keys [of hs] by simp
qed


lemma mergeHistories_two_sources:
  "mergeHistories two_sources
     = Inr [\<lparr>time = 1700000000, open = 10, high = 12, low = 9, close = 11, volume = None\<rparr>]"
  by (simp add: two_sources_def mergeHistories_def buckets_of_def merge_bucket_def)

lemma bucket_two_sources:
  "map close (bucket two_sources 1700000000) = [11, 21 / 2]"
  by (simp add: two_sources_def bucket_def)

text \<open>
  Claim C1, as amended. For every timestamp of the input \<^verbatim>\<open>mergeHistories\<close> emits
  exactly one candle, and for every emitted candle the bucket of its timestamp is not
  empty, \<open>high\<close> is the maximum of the bucket's highs, \<open>low\<close> the minimum of its lows and
  \<open>close\<close> the element at index \<open>\<lfloor>n / 2\<rfloor>\<close> of the ascending sort of the bucket's \<open>n\<close>
  closes: the middle element when \<open>n\<close> is odd, the upper of the two middle elements
  when \<open>n\<close> is even.
\<close>

theorem mergeHistories_bucket:
  "\<exists>out. mergeHistories hs = Inr out
     \<and> distinct (map time out)
     \<and> time ` set out = time ` set (concat hs)
     \<and> (\<forall>m \<in> set out.
          bucket hs (time m) \<noteq> []
          \<and> high m = Max (high ` set (bucket hs (time m)))
          \<and> low m = Min (low ` set (bucket hs (time m)))
          \<and> close m = sort (map close (bucket hs (time m))) ! (length (bucket hs (time m)) div 2))"
proof -
  let ?out = "sort_key time (map (\<lambda>b. emit hs (fst b)) (buckets_of hs))"
  have eq: "mergeHistories hs = Inr ?out" by (rule mergeHistories_eq)
  have "\<forall>m \<in> set ?out. bucket hs (time m) \<noteq> []
          \<and> high m = Max (high ` set (bucket hs (time m)))
          \<and> low m = Min (low ` set (bucket hs (time m)))
          \<and> close m = sort (map close (bucket hs (time m))) ! (length (bucket hs (time m)) div 2)"
  proof
    fix m assume "m \<in> set ?out"
    then obtain b where b: "b \<in> set (buckets_of hs)" and m: "m = emit hs (fst b)" by auto
    from b have "bucket hs (fst b) \<noteq> []"
      using buckets_of_entry [of "fst b" "snd b" hs] by auto
    then show "bucket hs (time m) \<noteq> []
          \<and> high m = Max (high ` set (bucket hs (time m)))
          \<and> low m = Min (low ` set (bucket hs (time m)))
          \<and> close m = sort (map close (bucket hs (time m))) ! (length (bucket hs (time m)) div 2)"
      by (simp add: m emit_def median_of_def)
  qed
  with eq mergeHistories_times [OF eq] show ?thesis by simp
qed

theorem mergeHistories_bucket_witness:
  "bucket two_sources 1700000000 \<noteq> []
   \<and> (12 :: rat) = Max (high ` set (bucket two_sources 1700000000))
   \<and> (9 :: rat) = Min (low ` set (bucket two_sources 1700000000))
   \<and> (11 :: rat) = sort (map close (bucket two_sources 1700000000))
                      ! (length (bucket two_sources 1700000000) div 2)"
  using mergeHistories_bucket [of two_sources] by (simp add: mergeHistories_two_sources)

text \<open>
  The claim as stated fails on the specification's own example: the two closes 11 and
  10.5 are merged to 11, not to the lower of the two middle elements.
\<close>

theorem mergeHistories_lower_median_counterexample:
  "mergeHistories two_sources
     = Inr [\<lparr>time = 1700000000, open = 10, high = 12, low = 9, close = 11, volume = None\<rparr>]
   \<and> lower_median (map close (bucket two_sources 1700000000)) = 21 / 2
   \<and> (11 :: rat) \<noteq> 21 / 2"
  by (simp add: mergeHistories_two_sources bucket_two_sources lower_median_def)

subsection \<open>Disjoint timestamps\<close>

lemma buckets_of_distinct:
  "distinct (map time cs) \<Longrightarrow> foldl bucket_push [] cs = map (\<lambda>c. (time c, [c])) cs"
proof (induction cs rule: rev_induct)
  case Nil
  show ?case by simp
next
  case (snoc c cs)
  then have "time c \<notin> fst ` set (map (\<lambda>c. (time c, [c])) cs)"
    by (auto simp: image_iff)
  with snoc show ?case by (simp add: bucket_push_fresh)
qed

lemma merge_bucket_single: "merge_bucket (time c, [c]) = Inr (drop_volume c)"
  by (simp add: merge_bucket_def drop_volume_def)

lemma mergeHistories_distinct:
  assumes "distinct (map time (concat hs))"
  shows "mergeHistories hs = Inr (sort_key time (map drop_volume (concat hs)))"
proof -
  have "buckets_of hs = map (\<lambda>c. (time c, [c])) (concat hs)"
    unfolding buckets_of_def using assms by (rule buckets_of_distinct)
  then have "map merge_bucket (buckets_of hs) = map (\<lambda>c. merge_bucket (time c, [c])) (concat hs)"
    by simp
  moreover have "collect (map (\<lambda>c. merge_bucket (time c, [c])) (concat hs))
      = Inr (map drop_volume (concat hs))"
    by (rule collect_map) (simp add: merge_bucket_single)
  ultimately show ?thesis by (simp add: mergeHistories_def)
qed

lemma time_drop_volume: "map time (map drop_volume cs) = map time cs"
  by (simp add: drop_volume_def)

lemma drop_volume_id: "\<forall>c \<in> set cs. volume c = None \<Longrightarrow> map drop_volume cs = cs"
  by (induction cs) (simp_all add: drop_volume_def)

text \<open>
  Claim C4, as amended. For histories \<open>H1\<close> and \<open>H2\<close> without repeated timestamps and
  with disjoint timestamp sets, \<^verbatim>\<open>mergeHistories([H1, H2])\<close> is the concatenation of
  \<open>H1\<close> and \<open>H2\<close> sorted by timestamp in which every candle keeps its time, open, high,
  low and close and loses its volume; it is the sorted concatenation itself when no
  candle has a volume. A single history in strictly ascending order comes back with
  every candle unchanged but for the volume, which is dropped.
\<close>

theorem mergeHistories_disjoint:
  "(distinct (map time H1) \<and> distinct (map time H2) \<and> time ` set H1 \<inter> time ` set H2 = {}
      \<longrightarrow> mergeHistories [H1, H2] = Inr (sort_key time (map drop_volume (H1 @ H2))))
   \<and> (distinct (map time H1) \<and> distinct (map time H2) \<and> time ` set H1 \<inter> time ` set H2 = {}
       \<and> (\<forall>c \<in> set (H1 @ H2). volume c = None)
      \<longrightarrow> mergeHistories [H1, H2] = Inr (sort_key time (H1 @ H2)))
   \<and> (sorted_wrt (<) (map time H) \<longrightarrow> mergeHistories [H] = Inr (map drop_volume H))"
proof (intro conjI impI)
  assume a: "distinct (map time H1) \<and> distinct (map time H2) \<and> time ` set H1 \<inter> time ` set H2 = {}"
  then have "distinct (map time (concat [H1, H2]))" by simp
  then show "mergeHistories [H1, H2] = Inr (sort_key time (map drop_volume (H1 @ H2)))"
    using mergeHistories_distinct [of "[H1, H2]"] by simp
next
  assume a: "distinct (map time H1) \<and> distinct (map time H2) \<and> time ` set H1 \<inter> time ` set H2 = {}
    \<and> (\<forall>c \<in> set (H1 @ H2). volume c = None)"
  then have "distinct (map time (concat [H1, H2]))" by simp
  moreover from a have "map drop_volume (H1 @ H2) = H1 @ H2"
    by (intro drop_volume_id) simp
  ultimately show "mergeHistories [H1, H2] = Inr (sort_key time (H1 @ H2))"
    using mergeHistories_distinct [of "[H1, H2]"] by simp
next
  assume s: "sorted_wrt (<) (map time H)"
  then have "distinct (map time (concat [H]))"
    by (simp add: strict_sorted_iff)
  moreover from s have "sorted (map time (map drop_volume H))"
    unfolding time_drop_volume by (simp add: strict_sorted_iff)
  then have "sort_key time (map drop_volume H) = map drop_volume H"
    by (rule sort_key_id_if_sorted)
  ultimately show "mergeHistories [H] = Inr (map drop_volume H)"
    using mergeHistories_distinct [of "[H]"] by simp
qed

theorem mergeHistories_disjoint_witness:
  "mergeHistories [with_volume, without_volume]
     = Inr (sort_key time (map drop_volume (with_volume @ without_volume)))
   \<and> mergeHistories [without_volume, []] = Inr (sort_key time (without_volume @ []))
   \<and> mergeHistories [with_volume] = Inr (map drop_volume with_volume)"
  using mergeHistories_disjoint [of with_volume without_volume with_volume]
    mergeHistories_disjoint [of without_volume "[]" with_volume]
  by (simp add: with_volume_def without_volume_def drop_volume_def)

text \<open>
  The claim as stated fails for a history that carries volumes: the merged candles have
  none, so the result is not the sorted concatenation of the inputs.
\<close>

theorem mergeHistories_volume_counterexample:
  "mergeHistories [with_volume, []] \<noteq> Inr (sort_key time (with_volume @ []))"
  by (simp add: with_volume_def mergeHistories_def buckets_of_def merge_bucket_def)

section \<open>Properties of the aggregator\<close>

lemma map_of_upsert:
  "map_of (upsert p sy px bs) =
     (map_of bs)(sy \<mapsto> (case map_of bs sy of
        None \<Rightarrow> \<lparr>Acc.symbol = sy, vals = [px], Acc.byProtocol = (\<lambda>q. None)(p := Some px)\<rparr>
      | Some v \<Rightarrow> v\<lparr>vals := vals v @ [px], Acc.byProtocol := (Acc.byProtocol v)(p := Some px)\<rparr>))"
  by (induction p sy px bs rule: upsert.induct) (auto simp: fun_eq_iff)

lemma keys_upsert:
  "map fst (upsert p sy px bs) = (if sy \<in> fst ` set bs then map fst bs else map fst bs @ [sy])"
  by (induction p sy px bs rule: upsert.induct) (auto simp: image_iff)

lemma add_foldl: "add p snap bs = foldl process bs (map (Pair p) (tokens_or_empty snap))"
proof -
  have "foldl (add_token p) bs ts = foldl process bs (map (Pair p) ts)" for ts
    by (induction ts arbitrary: bs) (simp_all add: process_def)
  then show ?thesis
    by (simp add: add_def tokens_or_empty_def split: option.splits)
qed

lemma bySymbol_of_foldl: "bySymbol_of snaps = foldl process [] (entries snaps)"
  by (simp add: bySymbol_of_def entries_def add_foldl)

lemma filter_key_absent2: "k \<notin> f ` set xs \<Longrightarrow> filter (\<lambda>d. f d = k \<and> Q d) xs = []"
  by (auto simp: filter_empty_conv)

lemma acc_of_snoc_other:
  "norm_symbol (snd e) \<noteq> k \<Longrightarrow> acc_of (es @ [e]) k = acc_of es k"
  by (simp add: acc_of_def)

lemma acc_of_snoc_new:
  assumes "norm_symbol t \<notin> keys_of es" "norm_symbol t \<noteq> []"
  shows "acc_of (es @ [(p, t)]) (norm_symbol t)
     = \<lparr>Acc.symbol = norm_symbol t, vals = [priceUSD t], Acc.byProtocol = (\<lambda>q. None)(p := Some (priceUSD t))\<rparr>"
proof -
  have n: "norm_symbol t \<notin> (\<lambda>e. norm_symbol (snd e)) ` set es"
    using assms by (simp add: keys_of_def)
  have "filter (\<lambda>e. norm_symbol (snd e) = norm_symbol t) es = []"
    using n by (rule filter_key_absent)
  moreover have "filter (\<lambda>e. norm_symbol (snd e) = norm_symbol t \<and> fst e = q) es = []" for q
    using n by (rule filter_key_absent2)
  ultimately show ?thesis
    by (auto simp: acc_of_def fun_eq_iff last_quote_def)
qed

lemma acc_of_snoc_old:
  "acc_of (es @ [(p, t)]) (norm_symbol t)
     = (acc_of es (norm_symbol t))\<lparr>vals := vals (acc_of es (norm_symbol t)) @ [priceUSD t],
          Acc.byProtocol := (Acc.byProtocol (acc_of es (norm_symbol t)))(p := Some (priceUSD t))\<rparr>"
  by (auto simp: acc_of_def fun_eq_iff last_quote_def)

lemma foldl_process:
  "distinct (map fst (foldl process [] es)) \<and>
   (\<forall>k. map_of (foldl process [] es) k = (if k \<in> keys_of es then Some (acc_of es k) else None))"
proof (induction es rule: rev_induct)
  case Nil
  show ?case by (simp add: keys_of_def)
next
  case (snoc e es)
  obtain p t where e: "e = (p, t)" by (cases e)
  let ?bs = "foldl process [] es"
  let ?k = "norm_symbol t"
  show ?case
  proof (cases "?k = []")
    case True
    then have bs: "foldl process [] (es @ [(p, t)]) = ?bs"
      by (simp add: process_def add_token_def norm_symbol_def)
    have "keys_of (es @ [(p, t)]) = keys_of es" using True by (auto simp: keys_of_def)
    moreover have "k \<in> keys_of es \<Longrightarrow> acc_of (es @ [(p, t)]) k = acc_of es k" for k
      using True by (intro acc_of_snoc_other) (auto simp: keys_of_def)
    ultimately show ?thesis using snoc unfolding e bs by simp
  next
    case False
    then have bs: "foldl process [] (es @ [(p, t)]) = upsert p ?k (priceUSD t) ?bs"
      by (simp add: process_def add_token_def norm_symbol_def Let_def)
    have ks: "keys_of (es @ [(p, t)]) = insert ?k (keys_of es)"
      using False by (auto simp: keys_of_def)
    have dom: "fst ` set ?bs = keys_of es"
    proof -
      have "dom (map_of ?bs) = keys_of es" using snoc by (auto simp: dom_def split: if_splits)
      then show ?thesis by (simp add: dom_map_of_conv_image_fst)
    qed
    have d: "distinct (map fst (upsert p ?k (priceUSD t) ?bs))"
      using snoc by (simp add: keys_upsert)
    have m: "map_of (upsert p ?k (priceUSD t) ?bs) k =
        (if k \<in> keys_of (es @ [(p, t)]) then Some (acc_of (es @ [(p, t)]) k) else None)" for k
    proof (cases "k = ?k")
      case True
      show ?thesis
      proof (cases "?k \<in> keys_of es")
        case True
        with \<open>k = ?k\<close> snoc show ?thesis
          by (simp add: map_of_upsert ks acc_of_snoc_old)
      next
        case notin: False
        with \<open>k = ?k\<close> snoc \<open>?k \<noteq> []\<close> show ?thesis
          by (simp add: map_of_upsert ks acc_of_snoc_new)
      qed
    next
      case False
      then have "acc_of (es @ [(p, t)]) k = acc_of es k"
        by (intro acc_of_snoc_other) simp
      with False snoc show ?thesis by (simp add: map_of_upsert ks)
    qed
    from d m show ?thesis unfolding e bs by simp
  qed
qed


lemma proto_UNIV: "(UNIV :: proto set) = {uni, sushi, quick, cake}"
  using proto.exhaust by auto

lemma in_entries: "(p, t) \<in> set (entries snaps) \<longleftrightarrow> t \<in> set (tokens_or_empty (snaps p))"
  by (cases p) (auto simp: entries_def)

lemma keys_of_entries: "keys_of (entries snaps) = (\<Union>p. observed (snaps p))"
proof -
  have "k \<in> (\<lambda>e. norm_symbol (snd e)) ` set (entries snaps)
      \<longleftrightarrow> (\<exists>p. k \<in> norm_symbol ` set (tokens_or_empty (snaps p)))" for k
  proof
    assume "k \<in> (\<lambda>e. norm_symbol (snd e)) ` set (entries snaps)"
    then obtain p t where "(p, t) \<in> set (entries snaps)" "k = norm_symbol t" by auto
    then show "\<exists>p. k \<in> norm_symbol ` set (tokens_or_empty (snaps p))"
      by (auto simp: in_entries)
  next
    assume "\<exists>p. k \<in> norm_symbol ` set (tokens_or_empty (snaps p))"
    then obtain p t where "t \<in> set (tokens_or_empty (snaps p))" "k = norm_symbol t" by auto
    then have "(p, t) \<in> set (entries snaps)" by (simp add: in_entries)
    with \<open>k = norm_symbol t\<close> show "k \<in> (\<lambda>e. norm_symbol (snd e)) ` set (entries snaps)"
      by force
  qed
  then show ?thesis by (auto simp: keys_of_def observed_def)
qed

lemma vals_acc_of_entries: "vals (acc_of (entries snaps) k) = all_quotes snaps k"
  by (simp add: acc_of_def entries_def all_quotes_def quotes_def filter_map comp_def)

lemma byProtocol_acc_of_entries:
  "Acc.byProtocol (acc_of (entries snaps) k) q = last_quote (quotes k (snaps q))"
  by (cases q) (simp_all add: acc_of_def entries_def quotes_def filter_map comp_def)

lemma all_quotes_nonempty:
  assumes "k \<in> observed (snaps p)"
  shows "all_quotes snaps k \<noteq> []"
proof -
  from assms obtain t where "t \<in> set (tokens_or_empty (snaps p))" "norm_symbol t = k"
    by (auto simp: observed_def)
  then have "quotes k (snaps p) \<noteq> []"
    by (auto simp: quotes_def filter_empty_conv)
  then show ?thesis by (cases p) (simp_all add: all_quotes_def)
qed

lemma row_of_acc_of:
  assumes "k \<in> observed (snaps p)"
  shows "row_of (acc_of (entries snaps) k) = row_for snaps k"
proof -
  have v: "vals (acc_of (entries snaps) k) = all_quotes snaps k" by (rule vals_acc_of_entries)
  have n: "sort (all_quotes snaps k) \<noteq> []"
    using all_quotes_nonempty [of k snaps p] assms by (metis length_sort length_0_conv)
  have s: "Acc.symbol (acc_of (entries snaps) k) = k" by (simp add: acc_of_def)
  have b: "Acc.byProtocol (acc_of (entries snaps) k) = (\<lambda>q. last_quote (quotes k (snaps q)))"
    by (simp add: fun_eq_iff byProtocol_acc_of_entries)
  show ?thesis
    unfolding row_of_def v s b row_for_def using n by (simp add: Let_def median_of_def)
qed

lemma set_own_entries: "set (own_entries kvs) = set kvs"
  by (auto simp: own_entries_def)

lemma distinct_own_entries: "distinct (map fst kvs) \<Longrightarrow> distinct (map fst (own_entries kvs))"
  by (auto simp: own_entries_def distinct_map inj_on_def)

lemma set_object_values: "set (object_values kvs) = snd ` set kvs"
  by (simp add: object_values_def set_own_entries)

lemma set_bySymbol_of:
  "set (bySymbol_of snaps) = (\<lambda>k. (k, acc_of (entries snaps) k)) ` (\<Union>p. observed (snaps p))"
proof -
  let ?bs = "bySymbol_of snaps"
  have d: "distinct (map fst ?bs)"
    and m: "\<And>k. map_of ?bs k = (if k \<in> keys_of (entries snaps) then Some (acc_of (entries snaps) k) else None)"
    using foldl_process [of "entries snaps"] by (simp_all add: bySymbol_of_foldl)
  have "(k, v) \<in> set ?bs \<longleftrightarrow> k \<in> keys_of (entries snaps) \<and> v = acc_of (entries snaps) k" for k v
    using map_of_eq_Some_iff [OF d, of k v] m [of k] by (auto split: if_splits)
  then show ?thesis unfolding keys_of_entries by (auto simp del: UN_iff)
qed

lemma set_rows: "set (rows snaps) = row_for snaps ` (\<Union>p. observed (snaps p))"
proof -
  have "set (rows snaps) = row_of ` snd ` set (bySymbol_of snaps)"
    by (simp add: rows_def set_object_values)
  also have "\<dots> = (\<lambda>k. row_of (acc_of (entries snaps) k)) ` (\<Union>p. observed (snaps p))"
    by (simp add: set_bySymbol_of image_image)
  also have "\<dots> = row_for snaps ` (\<Union>p. observed (snaps p))"
    by (rule image_cong) (auto simp: row_of_acc_of)
  finally show ?thesis .
qed


lemma symbol_row_for: "MarketRow.symbol (row_for snaps k) = k"
  by (simp add: row_for_def)

lemma symbols_rows: "MarketRow.symbol ` set (rows snaps) = (\<Union>p. observed (snaps p))"
  unfolding set_rows image_image symbol_row_for by simp

lemma distinct_symbols_rows: "distinct (map MarketRow.symbol (rows snaps))"
proof -
  let ?bs = "bySymbol_of snaps"
  have d: "distinct (map fst ?bs)"
    using foldl_process [of "entries snaps"] by (simp add: bySymbol_of_foldl)
  have "MarketRow.symbol (row_of (snd kv)) = fst kv" if "kv \<in> set (own_entries ?bs)" for kv
  proof -
    from that have "kv \<in> set ?bs" by (simp add: set_own_entries)
    then obtain k where "kv = (k, acc_of (entries snaps) k)" unfolding set_bySymbol_of by blast
    then show ?thesis by (simp add: row_of_def acc_of_def Let_def)
  qed
  then have "map MarketRow.symbol (rows snaps) = map fst (own_entries ?bs)"
    by (simp add: rows_def object_values_def)
  with d show ?thesis by (simp add: distinct_own_entries)
qed

lemma absent_like_empty:
  "add p (Some empty_snapshot) bs = add p None bs"
  "pools_or_empty (Some empty_snapshot) = pools_or_empty None"
  by (simp_all add: add_def pools_or_empty_def empty_snapshot_def)

lemma rows_absent:
  assumes "snaps p = None"
  shows "rows (snaps(p := Some empty_snapshot)) = rows snaps"
    and "pairs (snaps(p := Some empty_snapshot)) = pairs snaps"
  using assms
  by (cases p; simp add: rows_def bySymbol_of_def pairs_def absent_like_empty)+

lemma byProtocol_absent:
  assumes "snaps p = None" and "r \<in> set (rows snaps)"
  shows "MarketRow.byProtocol r p = None"
proof -
  from assms(2) obtain k where "r = row_for snaps k" unfolding set_rows by blast
  with assms(1) show ?thesis
    by (simp add: row_for_def quotes_def tokens_or_empty_def last_quote_def)
qed

lemma rows_poll:
  "map (\<lambda>r. (MarketRow.symbol r, price r, map (MarketRow.byProtocol r) [uni, sushi, quick, cake]))
     (rows poll)
   = [(''BTC'', Some 2100000, [Some 2000000, Some 2100000, None, None]),
      (''XYZ'', None, [Some 2000000, Some 2000000, None, None])]"
  by code_simp

lemma pairs_poll: "pairs poll = [\<lparr>pair = ''WBTC/WETH'', tick = 257000\<rparr>]"
  by code_simp

lemma quotes_poll:
  "all_quotes poll ''BTC'' = [2000000, 2100000]" "all_quotes poll ''XYZ'' = [2000000, 2000000]"
  by code_simp+

lemma poll_absent: "poll quick = None" "poll cake = None"
  by (simp_all add: poll_def)

lemma rows_poll_hd:
  "hd (rows poll) \<in> set (rows poll)" "MarketRow.symbol (hd (rows poll)) = ''BTC''"
  "price (hd (rows poll)) = Some 2100000"
  "last (rows poll) \<in> set (rows poll)" "MarketRow.symbol (last (rows poll)) = ''XYZ''"
  "price (last (rows poll)) = None"
proof -
  obtain r1 r2 where r: "rows poll = [r1, r2]"
    using rows_poll by (auto simp: map_eq_Cons_conv)
  with rows_poll show
    "hd (rows poll) \<in> set (rows poll)" "MarketRow.symbol (hd (rows poll)) = ''BTC''"
    "price (hd (rows poll)) = Some 2100000"
    "last (rows poll) \<in> set (rows poll)" "MarketRow.symbol (last (rows poll)) = ''XYZ''"
    "price (last (rows poll)) = None"
    by simp_all
qed

text \<open>
  Claim C2. Whatever snapshots are missing, the aggregation yields exactly one row for
  every symbol observed in the snapshots that are present, and the pools of the present
  snapshots in protocol order. A protocol without snapshot contributes no symbol, no
  pool and no per-protocol price: the result is the one obtained from an empty snapshot
  in its place. The aggregation is a total function of the four snapshot values: no
  step of it can throw.
\<close>

theorem aggregate_partial_failure:
  "MarketRow.symbol ` set (rows snaps) = (\<Union>q. observed (snaps q))
   \<and> distinct (map MarketRow.symbol (rows snaps))
   \<and> ((\<exists>q. observed (snaps q) \<noteq> {}) \<longrightarrow> rows snaps \<noteq> [])
   \<and> pairs snaps = concat (map (\<lambda>q. pools_or_empty (snaps q)) [uni, sushi, quick, cake])
   \<and> (snaps p = None \<longrightarrow>
        observed (snaps p) = {} \<and> pools_or_empty (snaps p) = []
        \<and> (\<forall>r \<in> set (rows snaps). MarketRow.byProtocol r p = None)
        \<and> rows (snaps(p \<mapsto> empty_snapshot)) = rows snaps
        \<and> pairs (snaps(p \<mapsto> empty_snapshot)) = pairs snaps)"
proof (intro conjI impI)
  show s: "MarketRow.symbol ` set (rows snaps) = (\<Union>q. observed (snaps q))"
    by (rule symbols_rows)
  show "distinct (map MarketRow.symbol (rows snaps))"
    by (rule distinct_symbols_rows)
  show "rows snaps \<noteq> []" if "\<exists>q. observed (snaps q) \<noteq> {}"
  proof
    assume "rows snaps = []"
    with s have "(\<Union>q. observed (snaps q)) = {}" by simp
    with that show False by blast
  qed
  show "pairs snaps = concat (map (\<lambda>q. pools_or_empty (snaps q)) [uni, sushi, quick, cake])"
    by (simp add: pairs_def)
next
  assume n: "snaps p = None"
  show "observed (snaps p) = {}" "pools_or_empty (snaps p) = []"
    by (simp_all add: n observed_def tokens_or_empty_def pools_or_empty_def)
  show "\<forall>r \<in> set (rows snaps). MarketRow.byProtocol r p = None"
    using n by (simp add: byProtocol_absent)
  show "rows (snaps(p \<mapsto> empty_snapshot)) = rows snaps"
    and "pairs (snaps(p \<mapsto> empty_snapshot)) = pairs snaps"
    using n by (rule rows_absent)+
qed

theorem aggregate_partial_failure_witness:
  "poll cake = None
   \<and> map MarketRow.symbol (rows poll) = [''BTC'', ''XYZ'']
   \<and> MarketRow.byProtocol (hd (rows poll)) cake = None
   \<and> rows (poll(cake \<mapsto> empty_snapshot)) = rows poll
   \<and> pairs (poll(cake \<mapsto> empty_snapshot)) = pairs poll
   \<and> pairs poll = [\<lparr>pair = ''WBTC/WETH'', tick = 257000\<rparr>]"
proof -
  have "map MarketRow.symbol (rows poll) = [''BTC'', ''XYZ'']"
    using rows_poll by (auto simp: map_eq_Cons_conv)
  then show ?thesis
    using aggregate_partial_failure [of poll cake] poll_absent(2) rows_poll_hd(1) pairs_poll
    by simp
qed

lemma lower_median_le: "xs \<noteq> [] \<Longrightarrow> lower_median xs \<le> median_of xs"
  unfolding lower_median_def median_of_def
  by (intro sorted_nth_mono) (simp_all add: div_le_mono)

text \<open>
  Claim C5. The price of a row is \<^verbatim>\<open>null\<close> when the median of the prices quoted for
  its symbol exceeds 1,000,000 and the symbol is not on the allow-list; a symbol on the
  allow-list keeps its median, and so does every symbol whose median is at most
  1,000,000. The median is the one the code computes (upper-middle for an even number
  of quotes); the suppression also holds when the lower-middle element exceeds
  1,000,000, since the code's median is never below it. With \<^verbatim>\<open>BTC\<close> quoted at 2,000,000 and 2,100,000 the price is not
  \<^verbatim>\<open>null\<close>; with \<^verbatim>\<open>XYZ\<close> quoted at 2,000,000 by every protocol that answered it is.
\<close>

theorem rows_suppression:
  "set allowed = {''BTC'', ''WBTC'', ''TBTC'', ''ETH'', ''WETH'', ''PAXG'', ''RETH'', ''STETH'', ''WSTETH''}
   \<and> (\<forall>r \<in> set (rows snaps).
        (1000000 < median_of (all_quotes snaps (MarketRow.symbol r)) \<and> MarketRow.symbol r \<notin> set allowed
           \<longrightarrow> price r = None)
        \<and> (1000000 < lower_median (all_quotes snaps (MarketRow.symbol r)) \<and> MarketRow.symbol r \<notin> set allowed
           \<longrightarrow> price r = None)
        \<and> (MarketRow.symbol r \<in> set allowed
           \<longrightarrow> price r = Some (median_of (all_quotes snaps (MarketRow.symbol r))))
        \<and> (median_of (all_quotes snaps (MarketRow.symbol r)) \<le> 1000000
           \<longrightarrow> price r = Some (median_of (all_quotes snaps (MarketRow.symbol r)))))"
proof (intro conjI ballI)
  show "set allowed = {''BTC'', ''WBTC'', ''TBTC'', ''ETH'', ''WETH'', ''PAXG'', ''RETH'', ''STETH'', ''WSTETH''}"
    by (simp add: allowed_def)
next
  fix r assume "r \<in> set (rows snaps)"
  then obtain k p where k: "k \<in> observed (snaps p)" and r: "r = row_for snaps k"
    unfolding set_rows by blast
  from k have "all_quotes snaps k \<noteq> []" by (rule all_quotes_nonempty)
  then have le: "lower_median (all_quotes snaps k) \<le> median_of (all_quotes snaps k)"
    by (rule lower_median_le)
  show "1000000 < median_of (all_quotes snaps (MarketRow.symbol r)) \<and> MarketRow.symbol r \<notin> set allowed
      \<longrightarrow> price r = None"
    by (simp add: r row_for_def tooLarge_def)
  show "1000000 < lower_median (all_quotes snaps (MarketRow.symbol r)) \<and> MarketRow.symbol r \<notin> set allowed
      \<longrightarrow> price r = None"
    using le by (simp add: r row_for_def tooLarge_def)
  show "MarketRow.symbol r \<in> set allowed
      \<longrightarrow> price r = Some (median_of (all_quotes snaps (MarketRow.symbol r)))"
    by (simp add: r row_for_def tooLarge_def)
  show "median_of (all_quotes snaps (MarketRow.symbol r)) \<le> 1000000
      \<longrightarrow> price r = Some (median_of (all_quotes snaps (MarketRow.symbol r)))"
    by (simp add: r row_for_def tooLarge_def)
qed

theorem rows_suppression_witness:
  "price (hd (rows poll)) = Some (median_of (all_quotes poll ''BTC''))
   \<and> median_of (all_quotes poll ''BTC'') = 2100000
   \<and> median_of (all_quotes poll ''XYZ'') = 2000000
   \<and> price (last (rows poll)) = None"
proof -
  have m: "median_of (all_quotes poll ''BTC'') = 2100000" "median_of (all_quotes poll ''XYZ'') = 2000000"
    by (simp_all add: quotes_poll median_of_def)
  have "''BTC'' \<in> set allowed" "''XYZ'' \<notin> set allowed"
    by (simp_all add: allowed_def)
  with m show ?thesis
    using rows_suppression [of poll] rows_poll_hd(1,2,4,5) by auto
qed

text \<open>
  Claim C6, as amended. Every row has at least one quote, and its price, when it is
  not \<^verbatim>\<open>null\<close>, is the element at index \<open>\<lfloor>n / 2\<rfloor>\<close> of the ascending numeric sort of
  the \<open>n\<close> prices quoted for its symbol by the present snapshots: the middle element
  when \<open>n\<close> is odd, the upper of the two middle elements when \<open>n\<close> is even. The price is
  \<^verbatim>\<open>null\<close> only when that element is suppressed as too large.
\<close>

theorem rows_price_median:
  "\<forall>r \<in> set (rows snaps).
      all_quotes snaps (MarketRow.symbol r) \<noteq> []
      \<and> (\<forall>m. price r = Some m \<longrightarrow>
            m = sort (all_quotes snaps (MarketRow.symbol r))
                  ! (length (all_quotes snaps (MarketRow.symbol r)) div 2))
      \<and> (price r = None \<longrightarrow>
            tooLarge (MarketRow.symbol r)
              (sort (all_quotes snaps (MarketRow.symbol r))
                 ! (length (all_quotes snaps (MarketRow.symbol r)) div 2)))"
proof
  fix r assume "r \<in> set (rows snaps)"
  then obtain k p where k: "k \<in> observed (snaps p)" and r: "r = row_for snaps k"
    unfolding set_rows by blast
  from k have "all_quotes snaps k \<noteq> []" by (rule all_quotes_nonempty)
  then show "all_quotes snaps (MarketRow.symbol r) \<noteq> []
      \<and> (\<forall>m. price r = Some m \<longrightarrow>
            m = sort (all_quotes snaps (MarketRow.symbol r))
                  ! (length (all_quotes snaps (MarketRow.symbol r)) div 2))
      \<and> (price r = None \<longrightarrow>
            tooLarge (MarketRow.symbol r)
              (sort (all_quotes snaps (MarketRow.symbol r))
                 ! (length (all_quotes snaps (MarketRow.symbol r)) div 2)))"
    by (simp add: r row_for_def median_of_def)
qed

theorem rows_price_median_witness:
  "all_quotes poll ''BTC'' \<noteq> []
   \<and> (2100000 :: rat) = sort (all_quotes poll ''BTC'') ! (length (all_quotes poll ''BTC'') div 2)"
  using rows_price_median [of poll] rows_poll_hd(1,2,3) by auto

text \<open>
  The claim as stated fails for two quotes: the price of \<^verbatim>\<open>BTC\<close> is the upper of the
  two, 2,100,000, and not the lower-middle element 2,000,000.
\<close>

theorem rows_lower_median_counterexample:
  "MarketRow.symbol (hd (rows poll)) = ''BTC''
   \<and> price (hd (rows poll)) = Some 2100000
   \<and> lower_median (all_quotes poll ''BTC'') = 2000000
   \<and> (2100000 :: rat) \<noteq> 2000000"
  by (simp add: rows_poll_hd quotes_poll lower_median_def)

section \<open>Properties of \<^verbatim>\<open>genMock\<close>\<close>

lemma length_mock_loop: "length (mock_loop k now step seed prc) = k"
  by (induction k arbitrary: seed prc) (simp_all add: Let_def)

lemma time_mock_loop:
  "i < k \<Longrightarrow> time (mock_loop k now step seed prc ! i) = now - (int k - int i) * step"
proof (induction k arbitrary: i seed prc)
  case 0
  then show ?case by simp
next
  case (Suc k)
  show ?case
  proof (cases i)
    case 0
    then show ?thesis by (simp add: Let_def)
  next
    case (Suc j)
    with Suc.prems have "j < k" by simp
    then show ?thesis using Suc.IH [of j] by (simp add: Let_def Suc)
  qed
qed

lemma ohlc_mock_loop:
  "map ohlc (mock_loop k now' step' seed prc) = map ohlc (mock_loop k now step seed prc)"
  by (induction k arbitrary: seed prc) (simp_all add: Let_def ohlc_def)

lemma step_of_pos: "0 < step_of iv"
  by (simp add: step_of_def)

lemma genMock_length: "length (genMock now_ms sy days iv) = nat (min 1000 (days * 86400 div step_of iv))"
  by (simp add: genMock_def Let_def length_mock_loop)

lemma genMock_time:
  assumes "i < length (genMock now_ms sy days iv)"
  shows "time (genMock now_ms sy days iv ! i)
    = now_ms div 1000 - (int (length (genMock now_ms sy days iv)) - int i) * step_of iv"
proof -
  let ?n = "nat (min 1000 (days * 86400 div step_of iv))"
  from assms have "i < ?n" by (simp add: genMock_length)
  then show ?thesis
    unfolding genMock_length unfolding genMock_def Let_def by (rule time_mock_loop)
qed

lemma genMock_ohlc: "map ohlc (genMock now_ms' sy days iv) = map ohlc (genMock now_ms sy days iv)"
  unfolding genMock_def Let_def by (rule ohlc_mock_loop)

lemma genMock_same_second:
  "now_ms' div 1000 = now_ms div 1000 \<Longrightarrow> genMock now_ms' sy days iv = genMock now_ms sy days iv"
  by (simp add: genMock_def)

lemma sorted_wrt_nth_Suc:
  assumes "\<And>i. Suc i < length xs \<Longrightarrow> xs ! i < (xs ! Suc i :: int)"
  shows "sorted_wrt (<) xs"
  using assms
proof (induction xs)
  case Nil
  show ?case by simp
next
  case (Cons x xs)
  have s: "sorted_wrt (<) xs"
    using Cons.prems [of "Suc i" for i] by (intro Cons.IH) simp
  have "x < y" if "y \<in> set xs" for y
  proof -
    from that obtain j where j: "j < length xs" "xs ! j = y" by (auto simp: in_set_conv_nth)
    have "x < xs ! j" using j(1)
    proof (induction j)
      case 0
      then show ?case using Cons.prems [of 0] by simp
    next
      case (Suc j)
      then have "x < xs ! j" by simp
      moreover have "xs ! j < xs ! Suc j" using Cons.prems [of "Suc j"] Suc.prems by simp
      ultimately show ?case by simp
    qed
    with j show ?thesis by simp
  qed
  with s show ?case by simp
qed

lemma genMock_BTC_length: "length (genMock now_ms ''BTC'' 1 ''1h'') = 24"
  by (simp add: genMock_length step_of_def)

text \<open>
  Claim C8, as amended. The sequence has \<open>max(0, min(1000, \<lfloor>days \<times> 86400 / step\<rfloor>))\<close>
  candles, which is \<open>min(1000, \<lfloor>days \<times> 86400 / step\<rfloor>)\<close> for \<open>days \<ge> 0\<close>; candle \<open>i\<close> of
  \<open>n\<close> (counted from 0) has the timestamp \<open>now - (n - i) \<times> step\<close> where \<open>now\<close> is
  \<open>\<lfloor>Date.now() / 1000\<rfloor>\<close>, so the timestamps are strictly ascending and exactly \<open>step\<close>
  seconds apart. Two calls with the same arguments yield the same open, high, low and
  close values, and the same output altogether when the clock shows the same second;
  \<^verbatim>\<open>genMock("BTC", 1, "1h")\<close> yields 24 candles 3600 seconds apart.
\<close>

theorem genMock_shape:
  "length (genMock now_ms sy days iv) = nat (min 1000 (days * 86400 div step_of iv))
   \<and> (0 \<le> days \<longrightarrow> int (length (genMock now_ms sy days iv)) = min 1000 (days * 86400 div step_of iv))
   \<and> (\<forall>i < length (genMock now_ms sy days iv).
         time (genMock now_ms sy days iv ! i)
           = now_ms div 1000 - (int (length (genMock now_ms sy days iv)) - int i) * step_of iv)
   \<and> (\<forall>i. Suc i < length (genMock now_ms sy days iv) \<longrightarrow>
         time (genMock now_ms sy days iv ! Suc i) - time (genMock now_ms sy days iv ! i) = step_of iv)
   \<and> sorted_wrt (<) (map time (genMock now_ms sy days iv))
   \<and> map ohlc (genMock now_ms' sy days iv) = map ohlc (genMock now_ms sy days iv)
   \<and> (now_ms' div 1000 = now_ms div 1000 \<longrightarrow> genMock now_ms' sy days iv = genMock now_ms sy days iv)"
proof -
  let ?g = "genMock now_ms sy days iv"
  have sp: "time (?g ! Suc i) - time (?g ! i) = step_of iv" if "Suc i < length ?g" for i
  proof -
    from that have "i < length ?g" by simp
    then show ?thesis using that by (simp add: genMock_time algebra_simps)
  qed
  have "sorted_wrt (<) (map time ?g)"
  proof (rule sorted_wrt_nth_Suc)
    fix i assume "Suc i < length (map time ?g)"
    then have "Suc i < length ?g" by simp
    then show "map time ?g ! i < map time ?g ! Suc i"
      using sp [of i] step_of_pos [of iv] by simp
  qed
  then show ?thesis
  proof (intro conjI allI impI)
    show "length ?g = nat (min 1000 (days * 86400 div step_of iv))" by (rule genMock_length)
    show "int (length ?g) = min 1000 (days * 86400 div step_of iv)" if "0 \<le> days"
      using that step_of_pos [of iv] by (simp add: genMock_length pos_imp_zdiv_nonneg_iff)
    show "time (?g ! i) = now_ms div 1000 - (int (length ?g) - int i) * step_of iv"
      if "i < length ?g" for i using that by (rule genMock_time)
    show "time (?g ! Suc i) - time (?g ! i) = step_of iv" if "Suc i < length ?g" for i
      using that by (rule sp)
    show "map ohlc (genMock now_ms' sy days iv) = map ohlc ?g" by (rule genMock_ohlc)
    show "genMock now_ms' sy days iv = ?g" if "now_ms' div 1000 = now_ms div 1000"
      using that by (rule genMock_same_second)
  qed
qed

theorem genMock_shape_witness:
  "length (genMock 1700000000000 ''BTC'' 1 ''1h'') = 24
   \<and> time (genMock 1700000000000 ''BTC'' 1 ''1h'' ! 0) = 1699913600
   \<and> time (genMock 1700000000000 ''BTC'' 1 ''1h'' ! 1) - time (genMock 1700000000000 ''BTC'' 1 ''1h'' ! 0) = 3600
   \<and> time (genMock 1700000000000 ''BTC'' 1 ''1h'' ! 23) = 1699996400
   \<and> genMock 1700000000999 ''BTC'' 1 ''1h'' = genMock 1700000000000 ''BTC'' 1 ''1h''"
  using genMock_shape [of 1700000000000 "''BTC''" 1 "''1h''" 1700000000999]
  by (simp add: step_of_def)


text \<open>
  The claim as stated fails: two calls with the same arguments, one second apart, differ
  in every timestamp.
\<close>

theorem genMock_clock_counterexample:
  "genMock 1700000000000 ''BTC'' 1 ''1h'' \<noteq> genMock 1700000001000 ''BTC'' 1 ''1h''"
proof
  assume "genMock 1700000000000 ''BTC'' 1 ''1h'' = genMock 1700000001000 ''BTC'' 1 ''1h''"
  then have "time (genMock 1700000000000 ''BTC'' 1 ''1h'' ! 0) = time (genMock 1700000001000 ''BTC'' 1 ''1h'' ! 0)"
    by simp
  then show False
    by (simp add: genMock_time genMock_BTC_length step_of_def)
qed


subsection \<open>The candle invariant\<close>

text \<open>
  \<^verbatim>\<open>genMock("SOL", 1, "1d")\<close> makes one candle. The seed is 338; the three calls of
  \<^verbatim>\<open>rand\<close> leave the seeds 1576513673, 4021977172 and 1077735331. The
  drift is about 0.2619 and the volatility factor about 0.9506, below one, so the high
  \<open>open + \<bar>drift\<bar> \<times> vol\<close> stays below the close \<open>open + drift\<close>.
\<close>

lemma genMock_SOL:
  "genMock now_ms ''SOL'' 1 ''1d''
     = [\<lparr>time = now_ms div 1000 - 86400, open = dbl (993353 / 10000), high = dbl (995842 / 10000),
         low = dbl (990864 / 10000), close = dbl (995972 / 10000), volume = None\<rparr>]"
proof -
  have n: "nat (min 1000 (1 * 86400 div 86400)) = Suc 0" by simp
  have st: "step_of ''1d'' = 86400" by (simp add: step_of_def)
  have s1: "next_seed (seed_of ''SOL'') = 1576513673" by code_simp
  have p0: "dbl (100 + dbl (dbl (rand_of 1576513673 - 1 / 2) * 5)) = 426641879725 / 4294967296" by code_simp
  have s2: "next_seed 1576513673 = 4021977172" by code_simp
  have dr: "dbl (dbl (rand_of 4021977172 - 1 / 2) * dbl (6 / 10)) = 4717317411412377 / 18014398509481984" by code_simp
  have s3: "next_seed 4021977172 = 1077735331" by code_simp
  have vo: "dbl (dbl (8 / 10) + dbl (rand_of 1077735331 * dbl (6 / 10))) = 8561864286719181 / 9007199254740992" by code_simp
  have ab: "\<bar>4717317411412377 / 18014398509481984 :: rat\<bar> = 4717317411412377 / 18014398509481984" by simp
  have op: "toFixed4 (426641879725 / 4294967296) = dbl (993353 / 10000)" by code_simp
  have hi: "toFixed4 (dbl (426641879725 / 4294967296 + dbl (4717317411412377 / 18014398509481984 * (8561864286719181 / 9007199254740992)))) = dbl (995842 / 10000)" by code_simp
  have lo: "toFixed4 (dbl (426641879725 / 4294967296 - dbl (4717317411412377 / 18014398509481984 * (8561864286719181 / 9007199254740992)))) = dbl (990864 / 10000)" by code_simp
  have cl: "toFixed4 (dbl (426641879725 / 4294967296 + 4717317411412377 / 18014398509481984)) = dbl (995972 / 10000)" by code_simp
  have tm: "now_ms div 1000 - int (Suc 0) * 86400 = now_ms div 1000 - 86400" by simp
  have "genMock now_ms ''SOL'' 1 ''1d'' = mock_loop (Suc 0) (now_ms div 1000) 86400 1576513673 (426641879725 / 4294967296)"
    unfolding genMock_def Let_def s1 p0 n st ..
  also have "\<dots> = [\<lparr>time = now_ms div 1000 - 86400, open = dbl (993353 / 10000), high = dbl (995842 / 10000),
         low = dbl (990864 / 10000), close = dbl (995972 / 10000), volume = None\<rparr>]"
    unfolding mock_loop.simps Let_def s2 dr s3 vo ab op hi lo cl tm ..
  finally show ?thesis .
qed

lemma SOL_close_above_high: "dbl (995842 / 10000) < dbl (995972 / 10000)"
  by code_simp

text \<open>
  Claim C7 fails on the code: the single candle of \<^verbatim>\<open>genMock("SOL", 1, "1d")\<close> has open
  99.3353, high 99.5842, low 99.0864 and close 99.5972, so its close lies above its
  high, whatever the clock shows.
\<close>

theorem genMock_close_above_high:
  "genMock now_ms ''SOL'' 1 ''1d''
     = [\<lparr>time = now_ms div 1000 - 86400, open = dbl (993353 / 10000), high = dbl (995842 / 10000),
         low = dbl (990864 / 10000), close = dbl (995972 / 10000), volume = None\<rparr>]
   \<and> high (hd (genMock now_ms ''SOL'' 1 ''1d'')) < close (hd (genMock now_ms ''SOL'' 1 ''1d''))
   \<and> \<not> candle_ok (hd (genMock now_ms ''SOL'' 1 ''1d''))"
  using SOL_close_above_high by (simp add: genMock_SOL candle_ok_def)

section \<open>Properties of \<^verbatim>\<open>normalizeSymbol\<close>\<close>

lemma of_char_lt_256: "(of_char c :: nat) < 256"
  by (metis of_char_mod_256 mod_less_divisor zero_less_numeral)

lemma lower_char_not_upper: "\<not> is_upper (lower_char c)"
  using of_char_lt_256 [of c] by (auto simp: lower_char_def is_upper_def Let_def)

lemma upper_char_not_lower: "\<not> is_lower (upper_char c)"
  using of_char_lt_256 [of c] by (auto simp: upper_char_def is_lower_def Let_def)

lemma is_space_lower_char: "is_space (lower_char c) = is_space c"
  using of_char_lt_256 [of c] by (auto simp: lower_char_def is_upper_def is_space_def Let_def)

lemma is_space_upper_char: "is_space (upper_char c) = is_space c"
  using of_char_lt_256 [of c] by (auto simp: upper_char_def is_lower_def is_space_def Let_def)

lemma lower_upper_char: "\<not> is_upper c \<Longrightarrow> lower_char (upper_char c) = c"
  using of_char_lt_256 [of c]
  by (auto simp: lower_char_def upper_char_def is_lower_def is_upper_def Let_def)

lemma lower_char_id: "\<not> is_upper c \<Longrightarrow> lower_char c = c"
  by (simp add: lower_char_def)

lemma upper_char_id: "\<not> is_lower c \<Longrightarrow> upper_char c = c"
  by (simp add: upper_char_def)


lemma trim_map:
  assumes "\<And>c. is_space (f c) = is_space c"
  shows "trim (map f s) = map f (trim s)"
proof -
  have "is_space \<circ> f = is_space" using assms by (simp add: fun_eq_iff)
  then show ?thesis by (simp add: trim_def dropWhile_map rev_map)
qed

lemma trim_toUpperCase: "trim (toUpperCase s) = toUpperCase (trim s)"
  unfolding toUpperCase_def by (rule trim_map) (rule is_space_upper_char)

lemma trim_toLowerCase: "trim (toLowerCase s) = toLowerCase (trim s)"
  unfolding toLowerCase_def by (rule trim_map) (rule is_space_lower_char)

lemma dropWhile_idem: "dropWhile P (dropWhile P xs) = dropWhile P xs"
  by (induction xs) auto

lemma trim_no_space:
  assumes "s \<noteq> []" "\<not> is_space (hd s)" "\<not> is_space (last s)"
  shows "trim s = s"
proof -
  have "dropWhile is_space s = s" using assms(1,2) by (cases s) auto
  moreover have "dropWhile is_space (rev s) = rev s"
    using assms(1,3) by (cases "rev s") (auto simp: last_rev [symmetric] simp del: last_rev)
  ultimately show ?thesis by (simp add: trim_def)
qed

lemma trim_trim: "trim (trim s) = trim s"
proof (cases "trim s = []")
  case True
  have "trim [] = []" by (simp add: trim_def)
  with True show ?thesis by simp
next
  case False
  let ?t = "dropWhile is_space s"
  let ?u = "dropWhile is_space (rev ?t)"
  from False have u: "?u \<noteq> []" by (simp add: trim_def)
  then have hu: "\<not> is_space (hd ?u)" by (rule hd_dropWhile)
  from u have t: "?t \<noteq> []" by (metis dropWhile.simps(1) rev.simps(1))
  then have ht: "\<not> is_space (hd ?t)" by (rule hd_dropWhile)
  have "last (rev ?u) = hd ?u" using u by (simp add: last_rev)
  with hu have l: "\<not> is_space (last (trim s))" by (simp add: trim_def)
  obtain ys where ys: "rev ?t = takeWhile is_space (rev ?t) @ ?u" by simp
  have "hd (rev ?u) = hd ?t"
  proof -
    have "?t = rev ?u @ rev (takeWhile is_space (rev ?t))"
      by (metis rev_append rev_rev_ident takeWhile_dropWhile_id)
    moreover have "rev ?u \<noteq> []" using u by simp
    ultimately show ?thesis by (metis hd_append2)
  qed
  with ht have h: "\<not> is_space (hd (trim s))" by (simp add: trim_def)
  from False h l show ?thesis by (rule trim_no_space)
qed

lemma toLowerCase_toUpperCase:
  "list_all (\<lambda>c. \<not> is_upper c) s \<Longrightarrow> toLowerCase (toUpperCase s) = s"
  by (induction s) (simp_all add: toLowerCase_def toUpperCase_def lower_upper_char)

lemma toLowerCase_id: "list_all (\<lambda>c. \<not> is_upper c) s \<Longrightarrow> toLowerCase s = s"
  by (induction s) (simp_all add: toLowerCase_def lower_char_id)

lemma toLowerCase_no_upper: "list_all (\<lambda>c. \<not> is_upper c) (toLowerCase s)"
  by (simp add: toLowerCase_def list_all_iff lower_char_not_upper)

text \<open>The string that \<^verbatim>\<open>normalizeSymbol\<close> inspects is a fixed point of the preparation.\<close>

lemma prepared_fixed: "toLowerCase (trim (toLowerCase (trim x))) = toLowerCase (trim x)"
  by (simp add: trim_toLowerCase trim_trim toLowerCase_id toLowerCase_no_upper)

lemma prepared_upper: "toLowerCase (trim (toUpperCase (toLowerCase (trim x)))) = toLowerCase (trim x)"
  by (simp add: trim_toUpperCase trim_toLowerCase trim_trim toLowerCase_toUpperCase toLowerCase_no_upper)

lemma toUpperCase_Nil_iff: "toUpperCase s = [] \<longleftrightarrow> s = []"
  by (simp add: toUpperCase_def)

lemma MAP_values_fixed:
  "list_all (\<lambda>kv. normalizeSymbol (toUpperCase (snd kv)) = Inr (toUpperCase (snd kv))) MAP"
  by code_simp

lemma is_address_nonempty: "is_address s \<Longrightarrow> s \<noteq> []"
  by (auto simp: is_address_def)

lemma is_ticker_nonempty: "is_ticker s \<Longrightarrow> s \<noteq> []"
  by (auto simp: is_ticker_def)

lemma normalizeSymbol_prepared:
  assumes "y \<noteq> []" and "toLowerCase (trim y) = s"
  shows "normalizeSymbol y =
    (if is_address s then Inr s
     else if is_ticker s \<and> falsy (MAP_get s) then Inr (toUpperCase s)
     else (case MAP_get s of None \<Rightarrow> Inr (toUpperCase s)
           | Some (JString v) \<Rightarrow> Inr (toUpperCase v) | Some JObject \<Rightarrow> Inl TypeError))"
  unfolding normalizeSymbol_def Let_def assms(2) using assms(1) by simp

text \<open>
  Applying the ASCII rendering of \<^verbatim>\<open>normalizeSymbol\<close> to its own result changes
  nothing; where the first call throws there is no result to apply it to.
\<close>

lemma normalizeSymbol_twice:
  "(case normalizeSymbol x of Inl e \<Rightarrow> Inl e | Inr r \<Rightarrow> normalizeSymbol r) = normalizeSymbol x"
proof (cases "x = []")
  case True
  then show ?thesis by (simp add: normalizeSymbol_def)
next
  case False
  define s where "s = toLowerCase (trim x)"
  have nx: "normalizeSymbol x =
    (if is_address s then Inr s
     else if is_ticker s \<and> falsy (MAP_get s) then Inr (toUpperCase s)
     else (case MAP_get s of None \<Rightarrow> Inr (toUpperCase s)
           | Some (JString v) \<Rightarrow> Inr (toUpperCase v) | Some JObject \<Rightarrow> Inl TypeError))"
    using False by (intro normalizeSymbol_prepared) (simp_all add: s_def)
  have fs: "toLowerCase (trim s) = s" unfolding s_def by (rule prepared_fixed)
  have fu: "toLowerCase (trim (toUpperCase s)) = s" unfolding s_def by (rule prepared_upper)
  have upper: "normalizeSymbol (toUpperCase s) = normalizeSymbol x" if "\<not> is_address s"
    and "(is_ticker s \<and> falsy (MAP_get s)) \<or> MAP_get s = None"
  proof (cases "s = []")
    case True
    then have "normalizeSymbol (toUpperCase s) = Inr []"
      by (simp add: normalizeSymbol_def toUpperCase_def)
    moreover have "normalizeSymbol x = Inr []"
      unfolding nx using that True by (auto simp: is_ticker_def toUpperCase_def)
    ultimately show ?thesis by simp
  next
    case False
    then have "toUpperCase s \<noteq> []" by (simp add: toUpperCase_Nil_iff)
    then show ?thesis
      using normalizeSymbol_prepared [OF _ fu] nx by simp
  qed
  show ?thesis
  proof (cases "is_address s")
    case True
    then have "s \<noteq> []" by (rule is_address_nonempty)
    then have "normalizeSymbol s = normalizeSymbol x"
      using normalizeSymbol_prepared [OF _ fs] nx by simp
    with True show ?thesis by (simp add: nx)
  next
    case na: False
    show ?thesis
    proof (cases "is_ticker s \<and> falsy (MAP_get s)")
      case True
      with na upper show ?thesis by (simp add: nx)
    next
      case nt: False
      show ?thesis
      proof (cases "MAP_get s")
        case None
        with na nt upper show ?thesis by (auto simp: nx)
      next
        case (Some w)
        show ?thesis
        proof (cases w)
          case (JString v)
          with Some have "map_of MAP s = Some v"
            by (auto simp: MAP_get_def split: option.splits if_splits)
          then have "(s, v) \<in> set MAP" by (rule map_of_SomeD)
          then have "normalizeSymbol (toUpperCase v) = Inr (toUpperCase v)"
            using MAP_values_fixed by (auto simp: list_all_iff)
          with na nt Some JString show ?thesis by (auto simp: nx)
        next
          case JObject
          with na nt Some show ?thesis by (auto simp: nx)
        qed
      qed
    qed
  qed
qed


subsection \<open>ASCII strings and their code units\<close>

lemma lower_unit_of_char: "lower_unit (of_char c) = of_char (lower_char c)"
  using of_char_lt_256 [of c] by (auto simp: lower_unit_def lower_char_def is_upper_def Let_def)

lemma upper_unit_of_char: "upper_unit (of_char c) = of_char (upper_char c)"
proof -
  have lt: "(of_char c :: nat) < 256" by (rule of_char_lt_256)
  then have ne: "(of_char c :: nat) \<noteq> 383" by arith
  have "upper_unit (of_char c) = (if is_lower c then of_char c - 32 else of_char c)"
    unfolding upper_unit_def is_lower_def Let_def by (simp only: ne if_False)
  also have "\<dots> = of_char (upper_char c)"
    using lt by (auto simp: upper_char_def is_lower_def Let_def)
  finally show ?thesis .
qed

lemma is_space16_of_char: "of_char c < (128 :: nat) \<Longrightarrow> is_space16 (of_char c) = is_space c"
  by (auto simp: is_space16_def is_space_def Let_def)

lemma char_eq_code: "(c = d) = (of_char c = (of_char d :: nat))"
  by simp

lemma is_hex16_of_char: "is_hex16 (of_char c) = is_hex c"
proof -
  have "is_hex c \<longleftrightarrow> (48 \<le> (of_char c :: nat) \<and> (of_char c :: nat) \<le> 57)
      \<or> (of_char c :: nat) \<in> {97, 98, 99, 100, 101, 102, 65, 66, 67, 68, 69, 70}"
    unfolding is_hex_def is_digit_def Let_def by (simp add: char_eq_code [of c])
  also have "\<dots> \<longleftrightarrow> is_hex16 (of_char c)"
    unfolding is_hex16_def by (simp; arith)
  finally show ?thesis by simp
qed

lemma is_letter16_of_char: "is_letter16 (of_char c) = (is_lower c \<or> is_upper c)"
  by (auto simp: is_letter16_def is_lower_def is_upper_def Let_def)

lemma ascii_upper_char: "of_char c < (128 :: nat) \<Longrightarrow> of_char (upper_char c) < (128 :: nat)"
  by (auto simp: upper_char_def is_lower_def Let_def)

lemma ascii_lower_char: "of_char c < (128 :: nat) \<Longrightarrow> of_char (lower_char c) < (128 :: nat)"
  by (auto simp: lower_char_def is_upper_def Let_def)


lemma units_eq_iff: "units s = units t \<longleftrightarrow> s = t"
  unfolding units_def by (simp add: inj_map_eq_map inj_on_def)

lemma units_Nil: "units [] = []" "units s = [] \<longleftrightarrow> s = []"
  by (simp_all add: units_def)

lemma inj_units: "inj units"
  by (simp add: inj_on_def units_eq_iff)

lemma ascii_simps:
  "ascii []" "ascii (c # s) \<longleftrightarrow> of_char c < (128 :: nat) \<and> ascii s"
  "ascii (rev s) = ascii s"
  by (auto simp: ascii_def list_all_iff)

lemma ascii_dropWhile: "ascii s \<Longrightarrow> ascii (dropWhile P s)"
  unfolding ascii_def list_all_iff using set_dropWhileD by fast

lemma ascii_trim: "ascii s \<Longrightarrow> ascii (trim s)"
  by (simp add: trim_def ascii_simps ascii_dropWhile)

lemma ascii_toUpperCase: "ascii s \<Longrightarrow> ascii (toUpperCase s)"
  by (simp add: ascii_def toUpperCase_def list_all_iff ascii_upper_char)

lemma ascii_toLowerCase: "ascii s \<Longrightarrow> ascii (toLowerCase s)"
  by (simp add: ascii_def toLowerCase_def list_all_iff ascii_lower_char)

lemma tabulated_units: "ascii s \<Longrightarrow> list_all tabulated (units s)"
  by (simp add: ascii_def units_def list_all_iff tabulated_def)

lemma units_toLowerCase: "toLowerCase16 (units s) = units (toLowerCase s)"
  by (simp add: toLowerCase16_def toLowerCase_def units_def lower_unit_of_char)

lemma units_toUpperCase: "toUpperCase16 (units s) = units (toUpperCase s)"
  by (simp add: toUpperCase16_def toUpperCase_def units_def upper_unit_of_char)

lemma units_dropWhile: "ascii s \<Longrightarrow> dropWhile is_space16 (units s) = units (dropWhile is_space s)"
  by (induction s) (simp_all add: units_def ascii_simps is_space16_of_char)

lemma units_rev: "rev (units s) = units (rev s)"
  by (simp add: units_def rev_map)

lemma units_trim: "ascii s \<Longrightarrow> trim16 (units s) = units (trim s)"
  by (simp add: trim16_def trim_def units_dropWhile units_rev ascii_simps ascii_dropWhile)

lemma units_is_address: "is_address16 (units s) = is_address s"
proof -
  have z: "(of_char c = (48 :: nat)) = (c = CHR ''0'')"
    "(of_char c = (120 :: nat)) = (c = CHR ''x'')" "(of_char c = (88 :: nat)) = (c = CHR ''X'')" for c
    by (simp_all add: char_eq_code [of c])
  show ?thesis
    by (auto simp: is_address16_def is_address_def units_def list_all_iff is_hex16_of_char z
          split: list.splits)
qed

lemma units_is_ticker: "is_ticker16 (units s) = is_ticker s"
  by (simp add: is_ticker16_def is_ticker_def units_def list_all_iff is_letter16_of_char)

lemma map_of_units:
  "map_of (map (\<lambda>kv. (units (fst kv), units (snd kv))) kvs) (units s) = map_option units (map_of kvs s)"
  by (induction kvs) (auto simp: units_eq_iff)

lemma units_MAP_get:
  "MAP_get16 (units s) = map_option (\<lambda>v. case v of JString t \<Rightarrow> UString (units t) | JObject \<Rightarrow> UObject) (MAP_get s)"
proof -
  have "units s \<in> set (map units Object_prototype) \<longleftrightarrow> s \<in> set Object_prototype"
    by (auto simp: units_eq_iff)
  then show ?thesis
    by (simp add: MAP_get16_def MAP_get_def map_of_units split: option.splits)
qed

lemma units_falsy: "falsy16 (MAP_get16 (units s)) = falsy (MAP_get s)"
  by (simp add: units_MAP_get falsy16_def falsy_def units_Nil split: option.splits js_value.splits)

text \<open>On ASCII input the two renderings of \<^verbatim>\<open>normalizeSymbol\<close> agree.\<close>

lemma normalizeSymbol16_ascii:
  assumes "ascii x"
  shows "normalizeSymbol16 (units x) = Some (map_sum id units (normalizeSymbol x))"
proof -
  let ?s = "toLowerCase (trim x)"
  have s: "toLowerCase16 (trim16 (units x)) = units ?s"
    using assms by (simp add: units_trim units_toLowerCase)
  have t: "list_all tabulated (units x)" using assms by (rule tabulated_units)
  have m: "MAP_get16 (units ?s)
      = map_option (\<lambda>v. case v of JString t \<Rightarrow> UString (units t) | JObject \<Rightarrow> UObject) (MAP_get ?s)"
    by (rule units_MAP_get)
  have f: "falsy16 (MAP_get16 (units ?s)) = falsy (MAP_get ?s)" by (rule units_falsy)
  show ?thesis
  proof (cases "MAP_get ?s")
    case None
    with m have "MAP_get16 (units ?s) = None" by simp
    with None f show ?thesis
      unfolding normalizeSymbol16_def normalizeSymbol_def Let_def s
      by (simp add: t units_Nil units_is_address units_is_ticker units_toUpperCase)
  next
    case (Some v)
    show ?thesis
    proof (cases v)
      case (JString w)
      with Some m have "MAP_get16 (units ?s) = Some (UString (units w))" by simp
      with Some JString f show ?thesis
        unfolding normalizeSymbol16_def normalizeSymbol_def Let_def s
        by (simp add: t units_Nil units_is_address units_is_ticker units_toUpperCase)
    next
      case JObject
      with Some m have "MAP_get16 (units ?s) = Some UObject" by simp
      with Some JObject f show ?thesis
        unfolding normalizeSymbol16_def normalizeSymbol_def Let_def s
        by (simp add: t units_Nil units_is_address units_is_ticker units_toUpperCase)
    qed
  qed
qed


lemma ascii_MAP_values: "list_all (\<lambda>kv. ascii (snd kv)) MAP"
  by (simp add: MAP_def ascii_def)

lemma normalizeSymbol_ascii:
  assumes "ascii x" and "normalizeSymbol x = Inr r"
  shows "ascii r"
proof (cases "x = []")
  case True
  with assms(2) show ?thesis by (simp add: normalizeSymbol_def ascii_simps)
next
  case False
  let ?s = "toLowerCase (trim x)"
  have s: "ascii ?s" using assms(1) by (simp add: ascii_trim ascii_toLowerCase)
  have v: "ascii (toUpperCase v)" if "MAP_get ?s = Some (JString v)" for v
  proof -
    from that have "map_of MAP ?s = Some v"
      by (auto simp: MAP_get_def split: option.splits if_splits)
    then have "(?s, v) \<in> set MAP" by (rule map_of_SomeD)
    then have "ascii v" using ascii_MAP_values by (auto simp: list_all_iff)
    then show ?thesis by (rule ascii_toUpperCase)
  qed
  from assms(2) False have "r = ?s \<or> r = toUpperCase ?s \<or> (\<exists>v. MAP_get ?s = Some (JString v) \<and> r = toUpperCase v)"
    by (auto simp: normalizeSymbol_def Let_def split: if_splits option.splits js_value.splits)
  with s v show ?thesis by (auto simp: ascii_toUpperCase)
qed

lemma units_char_of:
  "list_all (\<lambda>c. c < 128) u \<Longrightarrow> units (map char_of u) = u \<and> ascii (map char_of u)"
  by (induction u) (simp_all add: units_def ascii_def)

lemma ascii_units: "ascii s \<Longrightarrow> list_all (\<lambda>c. c < 128) (units s)"
  by (simp add: ascii_def units_def list_all_iff)

lemma normalizeSymbol_ethereum:
  "ascii ''ethereum''" "normalizeSymbol ''ethereum'' = Inr ''ETH''"
  "list_all (\<lambda>c. c < 128) (units ''ethereum'')"
  "normalizeSymbol16 (units ''ethereum'') = Some (Inr (units ''ETH''))"
  by code_simp+

lemma long_s_facts:
  "normalizeSymbol16 long_s_solana = Some (Inr (units ''SOLANA''))"
  "normalizeSymbol16 (units ''SOLANA'') = Some (Inr (units ''SOL''))"
  "units ''SOL'' \<noteq> units ''SOLANA''"
  "normalizeSymbol16 (units ''constructor'') = Some (Inl TypeError)"
  by code_simp+

text \<open>
  Claim C10, as amended. For every input of ASCII characters on which
  \<^verbatim>\<open>normalizeSymbol\<close> returns, the result is again a string of ASCII characters and
  \<^verbatim>\<open>normalizeSymbol\<close> applied to it returns it unchanged. The first conjunct states
  this for the ASCII rendering of the function, the second for the rendering over code
  units.
\<close>

theorem normalizeSymbol_idempotent:
  "(ascii x \<and> normalizeSymbol x = Inr r \<longrightarrow> ascii r \<and> normalizeSymbol r = Inr r)
   \<and> (list_all (\<lambda>c. c < 128) u \<and> normalizeSymbol16 u = Some (Inr v)
        \<longrightarrow> list_all (\<lambda>c. c < 128) v \<and> normalizeSymbol16 v = Some (Inr v))"
proof (intro conjI impI)
  assume a: "ascii x \<and> normalizeSymbol x = Inr r"
  then show "ascii r" using normalizeSymbol_ascii [of x r] by simp
  from a show "normalizeSymbol r = Inr r" using normalizeSymbol_twice [of x] by simp
next
  assume a: "list_all (\<lambda>c. c < 128) u \<and> normalizeSymbol16 u = Some (Inr v)"
  define x where "x = map char_of u"
  from a have ux: "units x = u" and ax: "ascii x"
    unfolding x_def using units_char_of [of u] by simp_all
  from a have "Some (map_sum id units (normalizeSymbol x)) = Some (Inr v)"
    using normalizeSymbol16_ascii [OF ax] by (simp add: ux)
  then obtain r where r: "normalizeSymbol x = Inr r" and v: "v = units r"
    by (cases "normalizeSymbol x") auto
  from ax r have ar: "ascii r" by (rule normalizeSymbol_ascii)
  then show "list_all (\<lambda>c. c < 128) v" unfolding v by (rule ascii_units)
  from r have "normalizeSymbol r = Inr r" using normalizeSymbol_twice [of x] by simp
  then show "normalizeSymbol16 v = Some (Inr v)"
    unfolding v using normalizeSymbol16_ascii [OF ar] by simp
qed

theorem normalizeSymbol_idempotent_witness:
  "ascii ''ETH'' \<and> normalizeSymbol ''ETH'' = Inr ''ETH''
   \<and> list_all (\<lambda>c. c < 128) (units ''ETH'') \<and> normalizeSymbol16 (units ''ETH'') = Some (Inr (units ''ETH''))"
  using normalizeSymbol_idempotent [of "''ethereum''" "''ETH''" "units ''ethereum''" "units ''ETH''"]
    normalizeSymbol_ethereum
  by blast

text \<open>
  The claim as stated fails. \<^verbatim>\<open>"\u017folana"\<close>, written with the long s U+017F, is not in
  the table and is upper-cased to \<^verbatim>\<open>SOLANA\<close>, which a second call finds in the table
  and turns into \<^verbatim>\<open>SOL\<close>. And for the input \<^verbatim>\<open>constructor\<close> the call throws, so
  that there is no result to compare.
\<close>

theorem normalizeSymbol_idempotent_counterexample:
  "normalizeSymbol16 long_s_solana = Some (Inr (units ''SOLANA''))
   \<and> normalizeSymbol16 (units ''SOLANA'') = Some (Inr (units ''SOL''))
   \<and> units ''SOL'' \<noteq> units ''SOLANA''
   \<and> normalizeSymbol16 (units ''constructor'') = Some (Inl TypeError)"
  by (simp only: long_s_facts simp_thms)

lemma char_of_eq: "char_of (n :: nat) = c \<longleftrightarrow> n mod 256 = of_char c"
  by (metis char_of_char of_char_of)

lemma is_hex_lower_char: "is_hex c \<Longrightarrow> is_hex (lower_char c)"
  by (auto simp: is_hex_def lower_char_def is_upper_def is_digit_def Let_def char_of_eq)

lemma lower_char_prefix:
  "lower_char CHR ''0'' = CHR ''0''" "lower_char CHR ''x'' = CHR ''x''" "lower_char CHR ''X'' = CHR ''x''"
  by (simp_all add: lower_char_def is_upper_def char_of_eq)

lemma is_hex_not_space: "is_hex c \<Longrightarrow> \<not> is_space c"
  by (auto simp: is_hex_def is_space_def is_digit_def Let_def)

lemma is_address_toLowerCase:
  assumes "is_address s"
  shows "is_address (toLowerCase s)"
proof -
  from assms obtain c1 hs where s: "s = CHR ''0'' # c1 # hs" and h: "list_all is_hex hs"
    and c1: "c1 = CHR ''x'' \<or> c1 = CHR ''X''" and l: "length hs = 40"
    by (auto simp: is_address_def split: list.splits)
  from h have "list_all is_hex (map lower_char hs)"
    by (simp add: list_all_iff is_hex_lower_char)
  moreover from c1 have "lower_char c1 = CHR ''x''" by (auto simp: lower_char_prefix)
  ultimately show ?thesis
    using l by (simp add: s is_address_def toLowerCase_def lower_char_prefix)
qed

lemma is_address_trim:
  assumes "is_address s"
  shows "trim s = s"
proof -
  from assms obtain c1 hs where s: "s = CHR ''0'' # c1 # hs" and h: "list_all is_hex hs"
    and c1: "c1 = CHR ''x'' \<or> c1 = CHR ''X''" and l: "length hs = 40"
    by (auto simp: is_address_def split: list.splits)
  from l have "hs \<noteq> []" by auto
  then have "last s = last hs" "last hs \<in> set hs" by (simp_all add: s)
  with h have "\<not> is_space (last s)" by (simp add: list_all_iff is_hex_not_space)
  moreover have "\<not> is_space (hd s)" by (simp add: s is_space_def)
  ultimately show ?thesis using s by (intro trim_no_space) simp_all
qed

text \<open>
  Claim C9, as amended. For every input that matches the address pattern
  (\<^verbatim>\<open>0x\<close> and 40 hexadecimal digits, in either case) \<^verbatim>\<open>normalizeSymbol\<close> returns
  the input converted to lower case; an input already in lower case is returned
  unchanged.
\<close>

theorem normalizeSymbol_address:
  "(is_address input \<longrightarrow> normalizeSymbol input = Inr (toLowerCase input))
   \<and> (is_address input \<and> list_all (\<lambda>c. \<not> is_upper c) input \<longrightarrow> normalizeSymbol input = Inr input)"
proof -
  have a: "normalizeSymbol input = Inr (toLowerCase input)" if "is_address input"
  proof -
    from that have "input \<noteq> []" by (rule is_address_nonempty)
    moreover from that have "toLowerCase (trim input) = toLowerCase input"
      by (simp add: is_address_trim)
    moreover from that have "is_address (toLowerCase input)" by (rule is_address_toLowerCase)
    ultimately show ?thesis
      using normalizeSymbol_prepared [of input "toLowerCase input"] by simp
  qed
  then show ?thesis by (auto simp: toLowerCase_id)
qed

lemma mixed_case_address_facts:
  "is_address mixed_case_address"
  "toLowerCase mixed_case_address = ''0xabcdef0123456789abcdef0123456789abcdef01''"
  "is_address ''0xabcdef0123456789abcdef0123456789abcdef01''"
  "list_all (\<lambda>c. \<not> is_upper c) ''0xabcdef0123456789abcdef0123456789abcdef01''"
  by code_simp+

theorem normalizeSymbol_address_witness:
  "normalizeSymbol mixed_case_address = Inr ''0xabcdef0123456789abcdef0123456789abcdef01''
   \<and> normalizeSymbol ''0xabcdef0123456789abcdef0123456789abcdef01'' = Inr ''0xabcdef0123456789abcdef0123456789abcdef01''"
proof -
  note f = mixed_case_address_facts
  have "normalizeSymbol mixed_case_address = Inr (toLowerCase mixed_case_address)"
    using normalizeSymbol_address [of mixed_case_address] f(1) by blast
  moreover have "normalizeSymbol ''0xabcdef0123456789abcdef0123456789abcdef01'' = Inr ''0xabcdef0123456789abcdef0123456789abcdef01''"
    using normalizeSymbol_address [of "''0xabcdef0123456789abcdef0123456789abcdef01''"] f(3,4) by blast
  ultimately show ?thesis by (simp only: f(2))
qed

text \<open>
  The claim as stated fails for an address with upper-case digits: it comes back in
  lower case.
\<close>

theorem normalizeSymbol_address_counterexample:
  "is_address mixed_case_address \<and> normalizeSymbol mixed_case_address \<noteq> Inr mixed_case_address"
  by code_simp

lemma Object_prototype_lower:
  "filter (\<lambda>k. toLowerCase k = k) Object_prototype = [''constructor'', ''__proto__'']"
  by code_simp

lemma normalizeSymbol_TypeError:
  "normalizeSymbol ''constructor'' = Inl TypeError" "normalizeSymbol ''__proto__'' = Inl TypeError"
  by code_simp+

end
